theory Spec2Isabelle
  imports Main "HOL-Library.Word"
begin

section \<open>Machine integers used by the shared dictionary store\<close>

text \<open>
  The store works on \<^verbatim>\<open>uint64_t\<close>, \<^verbatim>\<open>int64_t\<close> and \<^verbatim>\<open>size_t\<close> values. All three are
  64-bit patterns here: \<open>uint\<close> reads a pattern as unsigned, \<open>sint\<close> as two's complement,
  and a C++ conversion between the types keeps the pattern.

  \<^verbatim>\<open>base::CheckedNumeric<T>\<close> is not part of the sources at hand; it is modelled as exact
  arithmetic that becomes invalid (\<open>None\<close>) as soon as a result leaves the range of
  \<^verbatim>\<open>T\<close>. An invalid value stays invalid.
\<close>

type_synonym u64 = "64 word"

definition in_int64 :: "int \<Rightarrow> bool" where
  "in_int64 x \<longleftrightarrow> - (2 ^ 63) \<le> x \<and> x < 2 ^ 63"

definition in_uint64 :: "int \<Rightarrow> bool" where
  "in_uint64 x \<longleftrightarrow> 0 \<le> x \<and> x < 2 ^ 64"

text \<open>\<^verbatim>\<open>CheckedNumeric<uint64_t> -= size_t\<close>\<close>
definition checked_u64_sub_size :: "u64 option \<Rightarrow> u64 \<Rightarrow> u64 option" where
  "checked_u64_sub_size c s =
     (case c of None \<Rightarrow> None
      | Some v \<Rightarrow> if in_uint64 (uint v - uint s) then Some (v - s) else None)"

text \<open>\<^verbatim>\<open>CheckedNumeric<uint64_t> += size_t\<close>\<close>
definition checked_u64_add_size :: "u64 option \<Rightarrow> u64 \<Rightarrow> u64 option" where
  "checked_u64_add_size c s =
     (case c of None \<Rightarrow> None
      | Some v \<Rightarrow> if in_uint64 (uint v + uint s) then Some (v + s) else None)"

text \<open>\<^verbatim>\<open>CheckedNumeric<uint64_t> += int64_t\<close>\<close>
definition checked_u64_add_int64 :: "u64 option \<Rightarrow> u64 \<Rightarrow> u64 option" where
  "checked_u64_add_int64 c d =
     (case c of None \<Rightarrow> None
      | Some v \<Rightarrow> if in_uint64 (uint v + sint d) then Some (v + d) else None)"

text \<open>\<^verbatim>\<open>CheckedNumeric<int64_t> += size_t\<close> (also used with a \<^verbatim>\<open>uint64_t\<close> operand)\<close>
definition checked_i64_add_size :: "u64 option \<Rightarrow> u64 \<Rightarrow> u64 option" where
  "checked_i64_add_size c s =
     (case c of None \<Rightarrow> None
      | Some v \<Rightarrow> if in_int64 (sint v + uint s) then Some (v + s) else None)"

section \<open>Data model of the shared dictionary store\<close>

text \<open>The \<^verbatim>\<open>Error\<close> enumeration of \<^verbatim>\<open>SQLitePersistentSharedDictionaryStore\<close>.\<close>

datatype Error =
    kOk
  | kFailedToInitializeDatabase
  | kInvalidSql
  | kFailedToExecuteSql
  | kFailedToBeginTransaction
  | kFailedToCommitTransaction
  | kInvalidTotalDictSize
  | kFailedToGetTotalDictSize
  | kFailedToSetTotalDictSize
  | kTooBigDictionary

text \<open>
  A call either returns one of the typed errors, or the process is aborted by a failed
  \<^verbatim>\<open>CHECK\<close>. The aborting checks are told apart by their place in the source.
\<close>

datatype check_site =
    CHECK_NE_max_count_per_site
  | CHECK_EQ_primary_keys_tokens
  | ValueOrDie
  | checked_cast_int64

datatype failure = Err Error | Crash check_site

text \<open>
  One row of the table \<^verbatim>\<open>dictionaries\<close> (\<^verbatim>\<open>CreateV1Schema\<close>). The columns \<^verbatim>\<open>id\<close>,
  \<^verbatim>\<open>size\<close> and \<^verbatim>\<open>match\<close> carry the suffix \<open>_col\<close>. Times and ids are only compared, never
  computed with, so they are plain integers.
\<close>

record dictionary_row =
  id_col :: int
  frame_origin :: string
  top_frame_site :: string
  host :: string
  match_col :: string
  url :: string
  res_time :: int
  exp_time :: int
  last_used_time :: int
  size_col :: u64
  sha256 :: "nat list"
  token_high :: u64
  token_low :: u64

type_synonym UnguessableToken = "u64 \<times> u64"

text \<open>
  The state of the backend: the table (in insertion order), the value stored under
  \<^verbatim>\<open>total_dict_size\<close> in the meta table, the largest row id handed out so far
  (\<^verbatim>\<open>AUTOINCREMENT\<close>), and the in-memory map \<^verbatim>\<open>pending_last_used_time_updates_\<close>
  (an association list, the newest entry of a key first). \<open>begin_count\<close> is not data of
  the store: it counts the calls of \<^verbatim>\<open>sql::Transaction::Begin\<close>, so that "no
  transaction was opened" can be said of a call.
\<close>

record db_state =
  dictionaries :: "dictionary_row list"
  total_dict_size :: u64
  last_row_id :: int
  pending_last_used_time_updates :: "(int \<times> int) list"
  begin_count :: nat

text \<open>
  The SQL engine is an external collaborator. What a call observes of it is collected in
  an environment: whether each kind of engine call succeeds during this operation, and the
  function \<^verbatim>\<open>base::UnguessableToken::Deserialize\<close>, whose code is not among the sources.
  \<open>do_commit_ok\<close> says whether the separate transaction opened by \<^verbatim>\<open>DoCommit\<close> begins, runs
  and commits. A statement that has started is assumed to step through all of its rows,
  and the aggregates \<^verbatim>\<open>COUNT\<close> and \<^verbatim>\<open>SUM\<close> are exact.
\<close>

record sql_env =
  initialize_ok :: bool
  begin_ok :: bool
  commit_ok :: bool
  sql_valid :: bool
  run_ok :: bool
  meta_get_ok :: bool
  meta_set_ok :: bool
  do_commit_ok :: bool
  Deserialize :: "u64 \<Rightarrow> u64 \<Rightarrow> UnguessableToken option"

definition ToUnguessableToken :: "sql_env \<Rightarrow> u64 \<Rightarrow> u64 \<Rightarrow> UnguessableToken option" where
  "ToUnguessableToken env high low = Deserialize env high low"

text \<open>\<^verbatim>\<open>const size_t size = statement.ColumnInt64(...)\<close>: the column read as unsigned.\<close>

definition row_size :: "dictionary_row \<Rightarrow> int" where
  "row_size r = uint (size_col r)"

text \<open>\<^verbatim>\<open>ORDER BY last_used_time\<close> and \<^verbatim>\<open>ORDER BY id\<close>; ties keep the table order.\<close>

definition order_by_last_used_time :: "dictionary_row list \<Rightarrow> dictionary_row list" where
  "order_by_last_used_time rs = sort_key last_used_time rs"

definition order_by_id :: "dictionary_row list \<Rightarrow> dictionary_row list" where
  "order_by_id rs = sort_key id_col rs"

section \<open>Reading the totals\<close>

definition GetTotalDictionarySizeImpl :: "sql_env \<Rightarrow> db_state \<Rightarrow> Error + u64" where
  "GetTotalDictionarySizeImpl env st =
     (if \<not> initialize_ok env then Inl kFailedToInitializeDatabase
      else if \<not> meta_get_ok env then Inl kFailedToGetTotalDictSize
      else Inr (total_dict_size st))"

definition GetTotalDictionaryCount :: "sql_env \<Rightarrow> db_state \<Rightarrow> Error + int" where
  "GetTotalDictionaryCount env st =
     (if \<not> sql_valid env then Inl kInvalidSql
      else Inr (int (length (dictionaries st))))"

section \<open>Global eviction\<close>

text \<open>
  The loop of \<^verbatim>\<open>SelectEvictionCandidates\<close> over the rows the statement yields. The
  accumulator holds \<^verbatim>\<open>primary_keys_out\<close>, \<^verbatim>\<open>tokens_out\<close>,
  \<^verbatim>\<open>checked_total_dictionary_size\<close> and \<^verbatim>\<open>total_size_after_eviction_out\<close>.
\<close>

type_synonym eviction_acc = "int list \<times> UnguessableToken list \<times> u64 \<times> u64"

fun eviction_loop ::
  "sql_env \<Rightarrow> u64 \<Rightarrow> u64 \<Rightarrow> int \<Rightarrow> dictionary_row list \<Rightarrow> eviction_acc \<Rightarrow> failure + eviction_acc"
where
  "eviction_loop env cache_max_size size_low_watermark to_be_removed_count [] acc = Inr acc"
| "eviction_loop env cache_max_size size_low_watermark to_be_removed_count (r # rs)
      (primary_keys, tokens, checked_total, total_out) =
     (case ToUnguessableToken env (token_high r) (token_low r) of
        None \<Rightarrow>
          eviction_loop env cache_max_size size_low_watermark to_be_removed_count rs
            (primary_keys, tokens, checked_total, total_out)
      | Some disk_cache_key_token \<Rightarrow>
          (case checked_u64_sub_size (Some checked_total) (size_col r) of
             None \<Rightarrow> Inl (Err kInvalidTotalDictSize)
           | Some total' \<Rightarrow>
               if \<not> in_int64 (uint total') then Inl (Crash checked_cast_int64)
               else
                 let primary_keys' = primary_keys @ [id_col r];
                     tokens' = tokens @ [disk_cache_key_token]
                 in if (cache_max_size = 0 \<or> uint size_low_watermark \<ge> uint total') \<and>
                       int (length tokens') \<ge> to_be_removed_count
                    then Inr (primary_keys', tokens', total', total')
                    else eviction_loop env cache_max_size size_low_watermark
                           to_be_removed_count rs (primary_keys', tokens', total', total')))"

definition SelectEvictionCandidates ::
  "sql_env \<Rightarrow> u64 \<Rightarrow> u64 \<Rightarrow> u64 \<Rightarrow> u64 \<Rightarrow> db_state
     \<Rightarrow> failure + (int list \<times> UnguessableToken list \<times> u64)"
where
  "SelectEvictionCandidates env cache_max_size size_low_watermark cache_max_count
       count_low_watermark st =
     (case GetTotalDictionarySizeImpl env st of
        Inl e \<Rightarrow> Inl (Err e)
      | Inr total_dictionary_size \<Rightarrow>
     (case GetTotalDictionaryCount env st of
        Inl e \<Rightarrow> Inl (Err e)
      | Inr total_dictionary_count \<Rightarrow>
          if (cache_max_size = 0 \<or> uint total_dictionary_size \<le> uint cache_max_size) \<and>
             total_dictionary_count \<le> uint cache_max_count
          then Inr ([], [], 0)
          else
            let to_be_removed_count =
                  (if total_dictionary_count > uint count_low_watermark
                   then total_dictionary_count - uint count_low_watermark else 0)
            in if \<not> sql_valid env then Inl (Err kInvalidSql)
               else
                 (case eviction_loop env cache_max_size size_low_watermark to_be_removed_count
                         (order_by_last_used_time (dictionaries st))
                         ([], [], total_dictionary_size, 0) of
                    Inl f \<Rightarrow> Inl f
                  | Inr (primary_keys, tokens, checked_total, total_out) \<Rightarrow>
                      Inr (primary_keys, tokens, total_out))))"


section \<open>Committing the pending last-used-time updates\<close>

text \<open>
  \<^verbatim>\<open>DoCommit\<close> swaps the pending map out and, when it is not empty, writes every entry
  in a transaction of its own. When that transaction fails the rows stay as they were and
  the pending entries are lost.
\<close>

definition apply_last_used_time :: "(int \<times> int) list \<Rightarrow> dictionary_row \<Rightarrow> dictionary_row" where
  "apply_last_used_time pending r =
     (case map_of pending (id_col r) of
        None \<Rightarrow> r
      | Some t \<Rightarrow> r\<lparr>last_used_time := t\<rparr>)"

definition DoCommit :: "sql_env \<Rightarrow> db_state \<Rightarrow> db_state" where
  "DoCommit env st =
     (let pending = pending_last_used_time_updates st;
          st0 = st\<lparr>pending_last_used_time_updates := []\<rparr>
      in if pending = [] then st0
         else
           let st1 = st0\<lparr>begin_count := Suc (begin_count st0)\<rparr>
           in if \<not> do_commit_ok env then st1
              else st1\<lparr>dictionaries := map (apply_last_used_time pending) (dictionaries st1)\<rparr>)"

definition UpdateDictionaryLastUsedTime :: "int \<Rightarrow> int \<Rightarrow> db_state \<Rightarrow> db_state" where
  "UpdateDictionaryLastUsedTime primary_key_in_database t st =
     st\<lparr>pending_last_used_time_updates :=
          (primary_key_in_database, t) # pending_last_used_time_updates st\<rparr>"

text \<open>\<^verbatim>\<open>transaction.Begin()\<close>, counted.\<close>

definition begin_transaction :: "db_state \<Rightarrow> db_state" where
  "begin_transaction st = st\<lparr>begin_count := Suc (begin_count st)\<rparr>"

section \<open>Deleting rows and updating the counter\<close>

definition DeleteDictionaryByPrimaryKey :: "sql_env \<Rightarrow> int \<Rightarrow> db_state \<Rightarrow> Error + db_state" where
  "DeleteDictionaryByPrimaryKey env primary_key st =
     (if \<not> sql_valid env then Inl kInvalidSql
      else if \<not> run_ok env then Inl kFailedToExecuteSql
      else Inr (st\<lparr>dictionaries := filter (\<lambda>r. id_col r \<noteq> primary_key) (dictionaries st)\<rparr>))"

text \<open>\<^verbatim>\<open>for (int64_t primary_key : primary_keys)\<close>, leaving at the first error.\<close>

fun delete_primary_keys :: "sql_env \<Rightarrow> int list \<Rightarrow> db_state \<Rightarrow> Error + db_state" where
  "delete_primary_keys env [] st = Inr st"
| "delete_primary_keys env (k # ks) st =
     (case DeleteDictionaryByPrimaryKey env k st of
        Inl e \<Rightarrow> Inl e
      | Inr st' \<Rightarrow> delete_primary_keys env ks st')"

definition UpdateTotalDictionarySizeInMetaTable ::
  "sql_env \<Rightarrow> u64 \<Rightarrow> db_state \<Rightarrow> Error + (u64 \<times> db_state)"
where
  "UpdateTotalDictionarySizeInMetaTable env size_delta st =
     (case GetTotalDictionarySizeImpl env st of
        Inl e \<Rightarrow> Inl e
      | Inr cur_total \<Rightarrow>
          (case checked_u64_add_int64 (Some cur_total) size_delta of
             None \<Rightarrow> Inl kInvalidTotalDictSize
           | Some total' \<Rightarrow>
               if \<not> meta_set_ok env then Inl kFailedToSetTotalDictSize
               else Inr (total', st\<lparr>total_dict_size := total'\<rparr>)))"

section \<open>\<^verbatim>\<open>ProcessEviction\<close>\<close>

text \<open>
  Every operation returns its result together with the state it leaves. A transaction that
  is not committed is rolled back when the \<^verbatim>\<open>sql::Transaction\<close> goes out of scope, also
  when the process aborts: the state is then the one at \<^verbatim>\<open>Begin\<close>.
\<close>

definition ProcessEvictionImpl ::
  "sql_env \<Rightarrow> u64 \<Rightarrow> u64 \<Rightarrow> u64 \<Rightarrow> u64 \<Rightarrow> db_state
     \<Rightarrow> (failure + UnguessableToken set) \<times> db_state"
where
  "ProcessEvictionImpl env cache_max_size size_low_watermark cache_max_count
       count_low_watermark st =
     (if \<not> initialize_ok env then (Inl (Err kFailedToInitializeDatabase), st)
      else
        let st1 = begin_transaction (DoCommit env st)
        in if \<not> begin_ok env then (Inl (Err kFailedToBeginTransaction), st1)
           else
             (case SelectEvictionCandidates env cache_max_size size_low_watermark
                     cache_max_count count_low_watermark st1 of
                Inl f \<Rightarrow> (Inl f, st1)
              | Inr (primary_keys, tokens, total_size_after_eviction) \<Rightarrow>
                  if length primary_keys \<noteq> length tokens
                  then (Inl (Crash CHECK_EQ_primary_keys_tokens), st1)
                  else if primary_keys = [] then (Inr {}, st1)
                  else
                    (case delete_primary_keys env primary_keys st1 of
                       Inl e \<Rightarrow> (Inl (Err e), st1)
                     | Inr st2 \<Rightarrow>
                         if \<not> meta_set_ok env then (Inl (Err kFailedToSetTotalDictSize), st1)
                         else
                           (Inr (set tokens),
                            if commit_ok env
                            then st2\<lparr>total_dict_size := total_size_after_eviction\<rparr>
                            else st1))))"

section \<open>Registering a dictionary\<close>

record SharedDictionaryIsolationKey =
  key_frame_origin :: string
  key_top_frame_site :: string

text \<open>
  \<^verbatim>\<open>SharedDictionaryInfo\<close>, as far as \<^verbatim>\<open>RegisterDictionaryImpl\<close> reads it. \<open>info_host\<close> is
  \<^verbatim>\<open>url::SchemeHostPort(url()).Serialize()\<close> and \<open>info_exp_time\<close> is
  \<^verbatim>\<open>GetExpirationTime()\<close>; both are computed outside the sources at hand.
\<close>

record SharedDictionaryInfo =
  info_url :: string
  info_host :: string
  info_match :: string
  info_response_time :: int
  info_exp_time :: int
  info_last_used_time :: int
  info_size :: u64
  info_hash :: "nat list"
  info_token_high :: u64
  info_token_low :: u64

record RegisterDictionaryResult =
  primary_key_in_database :: int
  replaced_disk_cache_key_token :: "UnguessableToken option"
  evicted_disk_cache_key_tokens :: "UnguessableToken set"
  total_dictionary_size :: u64
  total_dictionary_count :: int

definition same_identity ::
  "SharedDictionaryIsolationKey \<Rightarrow> string \<Rightarrow> string \<Rightarrow> dictionary_row \<Rightarrow> bool"
where
  "same_identity isolation_key h m r \<longleftrightarrow>
     frame_origin r = key_frame_origin isolation_key \<and>
     top_frame_site r = key_top_frame_site isolation_key \<and>
     host r = h \<and> match_col r = m"

definition GetExistingDictionarySizeAndDiskCacheKeyToken ::
  "sql_env \<Rightarrow> SharedDictionaryIsolationKey \<Rightarrow> string \<Rightarrow> string \<Rightarrow> db_state
     \<Rightarrow> (u64 \<times> UnguessableToken option) option"
where
  "GetExistingDictionarySizeAndDiskCacheKeyToken env isolation_key h m st =
     (if \<not> sql_valid env then None
      else
        (case order_by_id (filter (same_identity isolation_key h m) (dictionaries st)) of
           [] \<Rightarrow> None
         | r # _ \<Rightarrow>
             Some (size_col r, ToUnguessableToken env (token_high r) (token_low r))))"

text \<open>
  \<^verbatim>\<open>INSERT OR REPLACE\<close>: the unique index on the identity columns removes the row it
  conflicts with, and the new row gets the next id.
\<close>

definition new_row ::
  "SharedDictionaryIsolationKey \<Rightarrow> SharedDictionaryInfo \<Rightarrow> int \<Rightarrow> dictionary_row"
where
  "new_row isolation_key info new_id =
     \<lparr> id_col = new_id,
       frame_origin = key_frame_origin isolation_key,
       top_frame_site = key_top_frame_site isolation_key,
       host = info_host info,
       match_col = info_match info,
       url = info_url info,
       res_time = info_response_time info,
       exp_time = info_exp_time info,
       last_used_time = info_last_used_time info,
       size_col = info_size info,
       sha256 = info_hash info,
       token_high = info_token_high info,
       token_low = info_token_low info \<rparr>"

definition insert_or_replace ::
  "SharedDictionaryIsolationKey \<Rightarrow> SharedDictionaryInfo \<Rightarrow> db_state \<Rightarrow> db_state"
where
  "insert_or_replace isolation_key info st =
     st\<lparr>dictionaries :=
          filter (\<lambda>r. \<not> same_identity isolation_key (info_host info) (info_match info) r)
            (dictionaries st)
          @ [new_row isolation_key info (last_row_id st + 1)],
        last_row_id := last_row_id st + 1\<rparr>"


section \<open>Per-site eviction\<close>

definition site_rows :: "string \<Rightarrow> db_state \<Rightarrow> dictionary_row list" where
  "site_rows site st = filter (\<lambda>r. top_frame_site r = site) (dictionaries st)"

definition GetDictionaryCountPerSite :: "sql_env \<Rightarrow> string \<Rightarrow> db_state \<Rightarrow> Error + int" where
  "GetDictionaryCountPerSite env site st =
     (if \<not> sql_valid env then Inl kInvalidSql
      else Inr (int (length (site_rows site st))))"

text \<open>
  \<^verbatim>\<open>SUM(size)\<close> adds the signed column values in 64 bits, row after row; the rows of a
  site are visited in the order of \<^verbatim>\<open>top_frame_site_index\<close>, that is by ascending \<^verbatim>\<open>id\<close>.
  When an addition leaves the range of \<^verbatim>\<open>int64_t\<close> the aggregate fails with
  \<^verbatim>\<open>integer overflow\<close>, whatever the later rows are.
\<close>

definition sum_step :: "int option \<Rightarrow> u64 \<Rightarrow> int option" where
  "sum_step acc x =
     (case acc of
        None \<Rightarrow> None
      | Some s \<Rightarrow> if in_int64 (s + sint x) then Some (s + sint x) else None)"

definition sqlite_sum :: "u64 list \<Rightarrow> int option" where
  "sqlite_sum xs = foldl sum_step (Some 0) xs"

text \<open>
  When the aggregate fails, \<^verbatim>\<open>Step()\<close> answers false and \<^verbatim>\<open>size_per_site\<close> keeps its
  initial value 0. Otherwise \<^verbatim>\<open>ColumnInt64\<close> hands the sum over as an \<^verbatim>\<open>int64_t\<close>, which
  is then kept in a \<^verbatim>\<open>uint64_t\<close>.
\<close>

definition GetDictionarySizePerSite :: "sql_env \<Rightarrow> string \<Rightarrow> db_state \<Rightarrow> Error + u64" where
  "GetDictionarySizePerSite env site st =
     (if \<not> sql_valid env then Inl kInvalidSql
      else
        (case sqlite_sum (map size_col (order_by_id (site_rows site st))) of
           None \<Rightarrow> Inr 0
         | Some s \<Rightarrow> Inr (word_of_int s)))"

text \<open>
  The loop of \<^verbatim>\<open>SelectCandidatesForPerSiteEviction\<close>. The accumulator holds
  \<^verbatim>\<open>primary_keys_out\<close>, \<^verbatim>\<open>tokens_out\<close> and \<^verbatim>\<open>total_size_of_candidates_out\<close>, which is the
  value of \<^verbatim>\<open>checked_total_size_of_candidates\<close> whenever the loop goes on.
\<close>

type_synonym per_site_acc = "int list \<times> UnguessableToken list \<times> u64"

fun per_site_loop ::
  "sql_env \<Rightarrow> u64 \<Rightarrow> int \<Rightarrow> dictionary_row list \<Rightarrow> per_site_acc \<Rightarrow> Error + per_site_acc"
where
  "per_site_loop env to_be_removed_size to_be_removed_count [] acc = Inr acc"
| "per_site_loop env to_be_removed_size to_be_removed_count (r # rs)
      (primary_keys, tokens, total_size_of_candidates) =
     (case ToUnguessableToken env (token_high r) (token_low r) of
        None \<Rightarrow>
          per_site_loop env to_be_removed_size to_be_removed_count rs
            (primary_keys, tokens, total_size_of_candidates)
      | Some disk_cache_key_token \<Rightarrow>
          (case checked_i64_add_size (Some total_size_of_candidates) (size_col r) of
             None \<Rightarrow> Inl kInvalidTotalDictSize
           | Some total' \<Rightarrow>
               let primary_keys' = primary_keys @ [id_col r];
                   tokens' = tokens @ [disk_cache_key_token]
               in if sint total' \<ge> sint to_be_removed_size \<and>
                     int (length tokens') \<ge> to_be_removed_count
                  then Inr (primary_keys', tokens', total')
                  else per_site_loop env to_be_removed_size to_be_removed_count rs
                         (primary_keys', tokens', total')))"

definition SelectCandidatesForPerSiteEviction ::
  "sql_env \<Rightarrow> string \<Rightarrow> u64 \<Rightarrow> u64 \<Rightarrow> db_state \<Rightarrow> Error + per_site_acc"
where
  "SelectCandidatesForPerSiteEviction env site max_size_per_site max_count_per_site st =
     (case GetDictionarySizePerSite env site st of
        Inl e \<Rightarrow> Inl e
      | Inr size_per_site \<Rightarrow>
     (case GetDictionaryCountPerSite env site st of
        Inl e \<Rightarrow> Inl e
      | Inr count_per_site \<Rightarrow>
          if (max_size_per_site = 0 \<or> uint size_per_site \<le> uint max_size_per_site) \<and>
             count_per_site \<le> uint max_count_per_site
          then Inr ([], [], 0)
          else
            let to_be_removed_count =
                  (if count_per_site > uint max_count_per_site
                   then count_per_site - uint max_count_per_site else 0);
                to_be_removed_size =
                  (if max_size_per_site \<noteq> 0 \<and> uint size_per_site > uint max_size_per_site
                   then size_per_site - max_size_per_site else 0)
            in if \<not> sql_valid env then Inl kInvalidSql
               else per_site_loop env to_be_removed_size to_be_removed_count
                      (order_by_last_used_time (site_rows site st)) ([], [], 0)))"

text \<open>
  \<^verbatim>\<open>MaybeEvictDictionariesForPerSiteLimit\<close>; the argument \<open>total_in\<close> is what
  \<^verbatim>\<open>*total_dictionary_size_out\<close> holds on entry, and stays when nothing is evicted.
\<close>

definition MaybeEvictDictionariesForPerSiteLimit ::
  "sql_env \<Rightarrow> string \<Rightarrow> u64 \<Rightarrow> u64 \<Rightarrow> u64 \<Rightarrow> db_state
     \<Rightarrow> failure + (UnguessableToken list \<times> u64 \<times> db_state)"
where
  "MaybeEvictDictionariesForPerSiteLimit env site max_size_per_site max_count_per_site
       total_in st =
     (case SelectCandidatesForPerSiteEviction env site max_size_per_site
             max_count_per_site st of
        Inl e \<Rightarrow> Inl (Err e)
      | Inr (primary_keys, tokens, total_candidate_dictionary_size) \<Rightarrow>
          if length primary_keys \<noteq> length tokens
          then Inl (Crash CHECK_EQ_primary_keys_tokens)
          else if primary_keys = [] then Inr (tokens, total_in, st)
          else
            (case delete_primary_keys env primary_keys st of
               Inl e \<Rightarrow> Inl (Err e)
             | Inr st' \<Rightarrow>
                 (case UpdateTotalDictionarySizeInMetaTable env
                         (- total_candidate_dictionary_size) st' of
                    Inl e \<Rightarrow> Inl (Err e)
                  | Inr (total_out, st'') \<Rightarrow> Inr (tokens, total_out, st''))))"

section \<open>\<^verbatim>\<open>RegisterDictionary\<close>\<close>

text \<open>
  \<^verbatim>\<open>size_delta\<close> of \<^verbatim>\<open>RegisterDictionaryImpl\<close>: the new size, less the size of the row that
  is about to be replaced. It is an \<^verbatim>\<open>int64_t\<close>; the subtraction is taken modulo \<open>2^64\<close>.
\<close>

definition compute_size_delta ::
  "sql_env \<Rightarrow> SharedDictionaryIsolationKey \<Rightarrow> SharedDictionaryInfo \<Rightarrow> db_state \<Rightarrow> u64"
where
  "compute_size_delta env isolation_key info st =
     (case GetExistingDictionarySizeAndDiskCacheKeyToken env isolation_key
             (info_host info) (info_match info) st of
        None \<Rightarrow> info_size info
      | Some (size_of_removed_dict, _) \<Rightarrow> info_size info - size_of_removed_dict)"

definition RegisterDictionaryImpl ::
  "sql_env \<Rightarrow> SharedDictionaryIsolationKey \<Rightarrow> SharedDictionaryInfo \<Rightarrow> u64 \<Rightarrow> u64 \<Rightarrow> db_state
     \<Rightarrow> (failure + RegisterDictionaryResult) \<times> db_state"
where
  "RegisterDictionaryImpl env isolation_key info max_size_per_site max_count_per_site st =
     (if max_count_per_site = 0 then (Inl (Crash CHECK_NE_max_count_per_site), st)
      else if max_size_per_site \<noteq> 0 \<and> uint (info_size info) > uint max_size_per_site
      then (Inl (Err kTooBigDictionary), st)
      else if \<not> initialize_ok env then (Inl (Err kFailedToInitializeDatabase), st)
      else
        let st1 = begin_transaction (DoCommit env st)
        in if \<not> begin_ok env then (Inl (Err kFailedToBeginTransaction), st1)
           else
             let replaced =
                   (case GetExistingDictionarySizeAndDiskCacheKeyToken env isolation_key
                           (info_host info) (info_match info) st1 of
                      None \<Rightarrow> None
                    | Some (_, tok) \<Rightarrow> tok);
                 size_delta = compute_size_delta env isolation_key info st1
             in if \<not> sql_valid env then (Inl (Err kInvalidSql), st1)
                else if \<not> run_ok env then (Inl (Err kFailedToExecuteSql), st1)
                else
                  let st2 = insert_or_replace isolation_key info st1;
                      new_id = last_row_id st2
                  in (case UpdateTotalDictionarySizeInMetaTable env size_delta st2 of
                        Inl e \<Rightarrow> (Inl (Err e), st1)
                      | Inr (total_size, st3) \<Rightarrow>
                     (case MaybeEvictDictionariesForPerSiteLimit env
                             (key_top_frame_site isolation_key) max_size_per_site
                             max_count_per_site total_size st3 of
                        Inl f \<Rightarrow> (Inl f, st1)
                      | Inr (evicted, total_size', st4) \<Rightarrow>
                     (case GetTotalDictionaryCount env st4 of
                        Inl e \<Rightarrow> (Inl (Err e), st1)
                      | Inr total_count \<Rightarrow>
                          if \<not> commit_ok env then (Inl (Err kFailedToCommitTransaction), st1)
                          else
                            (Inr \<lparr> primary_key_in_database = new_id,
                                   replaced_disk_cache_key_token = replaced,
                                   evicted_disk_cache_key_tokens = set evicted,
                                   total_dictionary_size = total_size',
                                   total_dictionary_count = total_count \<rparr>,
                             st4)))))"


section \<open>Clearing and deleting dictionaries\<close>

definition ClearAllDictionariesImpl :: "sql_env \<Rightarrow> db_state \<Rightarrow> Error \<times> db_state" where
  "ClearAllDictionariesImpl env st =
     (if \<not> initialize_ok env then (kFailedToInitializeDatabase, st)
      else
        let st1 = begin_transaction st
        in if \<not> begin_ok env then (kFailedToBeginTransaction, st1)
           else if \<not> sql_valid env then (kInvalidSql, st1)
           else if \<not> run_ok env then (kFailedToExecuteSql, st1)
           else if \<not> meta_set_ok env then (kFailedToSetTotalDictSize, st1)
           else if \<not> commit_ok env then (kFailedToCommitTransaction, st1)
           else (kOk, st1\<lparr>dictionaries := [], total_dict_size := 0\<rparr>))"

text \<open>
  \<^verbatim>\<open>end_time.is_null() ? base::Time::Max() : end_time\<close>: the null time is 0, the largest
  time is the largest \<^verbatim>\<open>int64_t\<close>.
\<close>

definition time_range_end :: "int \<Rightarrow> int" where
  "time_range_end end_time = (if end_time = 0 then 2 ^ 63 - 1 else end_time)"

definition in_time_range :: "int \<Rightarrow> int \<Rightarrow> dictionary_row \<Rightarrow> bool" where
  "in_time_range start_time end_time r \<longleftrightarrow>
     res_time r \<ge> start_time \<and> res_time r < time_range_end end_time"

text \<open>
  The loop shared by \<^verbatim>\<open>SelectMatchingDictionaries\<close> and
  \<^verbatim>\<open>SelectMatchingDictionariesWithUrlMatcher\<close>; \<open>keep\<close> is the test of the URL matcher
  (always true without one). The checked total may become invalid; the loop goes on.
\<close>

type_synonym matching_acc = "int list \<times> UnguessableToken list \<times> u64 option"

fun matching_loop ::
  "sql_env \<Rightarrow> (dictionary_row \<Rightarrow> bool) \<Rightarrow> dictionary_row list \<Rightarrow> matching_acc \<Rightarrow> matching_acc"
where
  "matching_loop env keep [] acc = acc"
| "matching_loop env keep (r # rs) (primary_keys, tokens, checked_total_size) =
     (if \<not> keep r then matching_loop env keep rs (primary_keys, tokens, checked_total_size)
      else
        (case ToUnguessableToken env (token_high r) (token_low r) of
           None \<Rightarrow> matching_loop env keep rs (primary_keys, tokens, checked_total_size)
         | Some disk_cache_key_token \<Rightarrow>
             matching_loop env keep rs
               (primary_keys @ [id_col r], tokens @ [disk_cache_key_token],
                checked_i64_add_size checked_total_size (size_col r))))"

definition select_matching ::
  "sql_env \<Rightarrow> (dictionary_row \<Rightarrow> bool) \<Rightarrow> int \<Rightarrow> int \<Rightarrow> db_state
     \<Rightarrow> failure + (int list \<times> UnguessableToken list \<times> u64)"
where
  "select_matching env keep start_time end_time st =
     (if \<not> sql_valid env then Inl (Err kInvalidSql)
      else
        (case matching_loop env keep
                (order_by_id (filter (in_time_range start_time end_time) (dictionaries st)))
                ([], [], Some 0) of
           (primary_keys, tokens, None) \<Rightarrow> Inl (Crash ValueOrDie)
         | (primary_keys, tokens, Some total_size) \<Rightarrow> Inr (primary_keys, tokens, total_size)))"

definition SelectMatchingDictionaries ::
  "sql_env \<Rightarrow> int \<Rightarrow> int \<Rightarrow> db_state \<Rightarrow> failure + (int list \<times> UnguessableToken list \<times> u64)"
where
  "SelectMatchingDictionaries env start_time end_time st =
     select_matching env (\<lambda>r. True) start_time end_time st"

definition SelectMatchingDictionariesWithUrlMatcher ::
  "sql_env \<Rightarrow> int \<Rightarrow> int \<Rightarrow> (string \<Rightarrow> bool) \<Rightarrow> db_state
     \<Rightarrow> failure + (int list \<times> UnguessableToken list \<times> u64)"
where
  "SelectMatchingDictionariesWithUrlMatcher env start_time end_time url_matcher st =
     select_matching env
       (\<lambda>r. url_matcher (frame_origin r) \<or> url_matcher (top_frame_site r) \<or> url_matcher (host r))
       start_time end_time st"

text \<open>
  \<^verbatim>\<open>if (total_size != 0) UpdateTotalDictionarySizeInMetaTable(-total_size, ...)\<close>, as three
  of the operations do it.
\<close>

definition subtract_from_total :: "sql_env \<Rightarrow> u64 \<Rightarrow> db_state \<Rightarrow> Error + db_state" where
  "subtract_from_total env total_size st =
     (if total_size \<noteq> 0
      then (case UpdateTotalDictionarySizeInMetaTable env (- total_size) st of
              Inl e \<Rightarrow> Inl e
            | Inr (_, st') \<Rightarrow> Inr st')
      else Inr st)"

definition ClearDictionariesImpl ::
  "sql_env \<Rightarrow> int \<Rightarrow> int \<Rightarrow> (string \<Rightarrow> bool) option \<Rightarrow> db_state
     \<Rightarrow> (failure + UnguessableToken set) \<times> db_state"
where
  "ClearDictionariesImpl env start_time end_time url_matcher st =
     (if \<not> initialize_ok env then (Inl (Err kFailedToInitializeDatabase), st)
      else
        let st1 = begin_transaction (DoCommit env st)
        in if \<not> begin_ok env then (Inl (Err kFailedToBeginTransaction), st1)
           else
             (case (case url_matcher of
                      Some m \<Rightarrow> SelectMatchingDictionariesWithUrlMatcher env start_time end_time m st1
                    | None \<Rightarrow> SelectMatchingDictionaries env start_time end_time st1) of
                Inl f \<Rightarrow> (Inl f, st1)
              | Inr (primary_keys, tokens, total_size) \<Rightarrow>
                  (case delete_primary_keys env primary_keys st1 of
                     Inl e \<Rightarrow> (Inl (Err e), st1)
                   | Inr st2 \<Rightarrow>
                       (case subtract_from_total env total_size st2 of
                          Inl e \<Rightarrow> (Inl (Err e), st1)
                        | Inr st3 \<Rightarrow>
                            (Inr (set tokens), if commit_ok env then st3 else st1)))))"

text \<open>
  \<^verbatim>\<open>DeleteExpiredDictionariesImpl\<close>: the statement deletes the expired rows and returns
  them; every returned size is added, and the token is kept when it deserializes.
\<close>

definition DeleteExpiredDictionariesImpl ::
  "sql_env \<Rightarrow> int \<Rightarrow> db_state \<Rightarrow> (failure + UnguessableToken set) \<times> db_state"
where
  "DeleteExpiredDictionariesImpl env now st =
     (if \<not> initialize_ok env then (Inl (Err kFailedToInitializeDatabase), st)
      else
        let st1 = begin_transaction st
        in if \<not> begin_ok env then (Inl (Err kFailedToBeginTransaction), st1)
           else if \<not> sql_valid env then (Inl (Err kInvalidSql), st1)
           else
             let expired = filter (\<lambda>r. exp_time r \<le> now) (dictionaries st1);
                 st2 = st1\<lparr>dictionaries := filter (\<lambda>r. \<not> exp_time r \<le> now) (dictionaries st1)\<rparr>;
                 checked_total_size = foldl checked_i64_add_size (Some 0) (map size_col expired);
                 tokens = List.map_filter
                            (\<lambda>r. ToUnguessableToken env (token_high r) (token_low r)) expired
             in (case checked_total_size of
                   None \<Rightarrow> (Inl (Crash ValueOrDie), st1)
                 | Some total_size \<Rightarrow>
                     (case subtract_from_total env total_size st2 of
                        Inl e \<Rightarrow> (Inl (Err e), st1)
                      | Inr st3 \<Rightarrow>
                          (Inr (set tokens), if commit_ok env then st3 else st1))))"

definition DeleteDictionaryByDiskCacheToken ::
  "sql_env \<Rightarrow> UnguessableToken \<Rightarrow> db_state \<Rightarrow> failure + (u64 \<times> db_state)"
where
  "DeleteDictionaryByDiskCacheToken env disk_cache_key_token st =
     (if \<not> initialize_ok env then Inl (Err kFailedToInitializeDatabase)
      else if \<not> sql_valid env then Inl (Err kInvalidSql)
      else
        let hit = (\<lambda>r. token_high r = fst disk_cache_key_token \<and>
                        token_low r = snd disk_cache_key_token)
        in (case foldl checked_u64_add_size (Some 0)
                   (map size_col (filter hit (dictionaries st))) of
              None \<Rightarrow> Inl (Crash ValueOrDie)
            | Some checked_size \<Rightarrow>
                Inr (checked_size,
                     st\<lparr>dictionaries := filter (\<lambda>r. \<not> hit r) (dictionaries st)\<rparr>)))"

text \<open>
  The loop of \<^verbatim>\<open>DeleteDictionariesByDiskCacheKeyTokensImpl\<close> over the token set, given as
  the list in which the set is traversed.
\<close>

fun delete_tokens_loop ::
  "sql_env \<Rightarrow> UnguessableToken list \<Rightarrow> u64 option \<times> db_state
     \<Rightarrow> failure + (u64 option \<times> db_state)"
where
  "delete_tokens_loop env [] acc = Inr acc"
| "delete_tokens_loop env (t # ts) (checked_total_dictionary_size, st) =
     (case DeleteDictionaryByDiskCacheToken env t st of
        Inl f \<Rightarrow> Inl f
      | Inr (deleted, st') \<Rightarrow>
          delete_tokens_loop env ts
            (checked_i64_add_size checked_total_dictionary_size deleted, st'))"

definition DeleteDictionariesByDiskCacheKeyTokensImpl ::
  "sql_env \<Rightarrow> UnguessableToken list \<Rightarrow> db_state \<Rightarrow> (failure + unit) \<times> db_state"
where
  "DeleteDictionariesByDiskCacheKeyTokensImpl env disk_cache_key_tokens st =
     (if \<not> initialize_ok env then (Inl (Err kFailedToInitializeDatabase), st)
      else
        let st1 = begin_transaction st
        in if \<not> begin_ok env then (Inl (Err kFailedToBeginTransaction), st1)
           else
             (case delete_tokens_loop env disk_cache_key_tokens (Some 0, st1) of
                Inl f \<Rightarrow> (Inl f, st1)
              | Inr (None, st2) \<Rightarrow> (Inl (Crash ValueOrDie), st1)
              | Inr (Some deleted_size, st2) \<Rightarrow>
                  (case subtract_from_total env deleted_size st2 of
                     Inl e \<Rightarrow> (Inl (Err e), st1)
                   | Inr st3 \<Rightarrow>
                       if \<not> commit_ok env then (Inl (Err kFailedToCommitTransaction), st1)
                       else (Inr (), st3))))"

section \<open>Sequences of store operations\<close>

text \<open>
  The operations of the store, each with the environment it runs in. The state of a fresh
  database is the one \<^verbatim>\<open>CreateV1Schema\<close> leaves: no rows and a total of 0.
\<close>

datatype store_op =
    OpRegisterDictionary SharedDictionaryIsolationKey SharedDictionaryInfo u64 u64
  | OpClearDictionaries int int "(string \<Rightarrow> bool) option"
  | OpDeleteExpiredDictionaries int
  | OpProcessEviction u64 u64 u64 u64
  | OpDeleteDictionariesByDiskCacheKeyTokens "UnguessableToken list"
  | OpClearAllDictionaries
  | OpUpdateDictionaryLastUsedTime int int
  | OpCommit

fun run_op :: "sql_env \<Rightarrow> store_op \<Rightarrow> db_state \<Rightarrow> db_state" where
  "run_op env (OpRegisterDictionary k info max_size max_count) st =
     snd (RegisterDictionaryImpl env k info max_size max_count st)"
| "run_op env (OpClearDictionaries start_time end_time m) st =
     snd (ClearDictionariesImpl env start_time end_time m st)"
| "run_op env (OpDeleteExpiredDictionaries now) st =
     snd (DeleteExpiredDictionariesImpl env now st)"
| "run_op env (OpProcessEviction a b c d) st = snd (ProcessEvictionImpl env a b c d st)"
| "run_op env (OpDeleteDictionariesByDiskCacheKeyTokens ts) st =
     snd (DeleteDictionariesByDiskCacheKeyTokensImpl env ts st)"
| "run_op env OpClearAllDictionaries st = snd (ClearAllDictionariesImpl env st)"
| "run_op env (OpUpdateDictionaryLastUsedTime k t) st = UpdateDictionaryLastUsedTime k t st"
| "run_op env OpCommit st = DoCommit env st"

fun run_ops :: "(sql_env \<times> store_op) list \<Rightarrow> db_state \<Rightarrow> db_state" where
  "run_ops [] st = st"
| "run_ops ((env, op) # ops) st = run_ops ops (run_op env op st)"

definition initial_db :: db_state where
  "initial_db =
     \<lparr> dictionaries = [], total_dict_size = 0, last_row_id = 0,
       pending_last_used_time_updates = [], begin_count = 0 \<rparr>"

text \<open>The counter as \<^verbatim>\<open>GetTotalDictionarySizeImpl\<close> reports it, and the sum of the column.\<close>

definition RunningTotal :: "db_state \<Rightarrow> int" where
  "RunningTotal st = uint (total_dict_size st)"

definition sum_of_sizes :: "db_state \<Rightarrow> int" where
  "sum_of_sizes st = (\<Sum>r\<leftarrow>dictionaries st. sint (size_col r))"

text \<open>The engine that never fails, with the token test of \<^verbatim>\<open>base::UnguessableToken\<close>.\<close>

definition good_env :: sql_env where
  "good_env =
     \<lparr> initialize_ok = True, begin_ok = True, commit_ok = True, sql_valid = True,
       run_ok = True, meta_get_ok = True, meta_set_ok = True, do_commit_ok = True,
       Deserialize = (\<lambda>high low. if high = 0 \<and> low = 0 then None else Some (high, low)) \<rparr>"

section \<open>Notions used to state the properties of the selectors\<close>

text \<open>
  A row takes part in an eviction scan only when its token deserializes; the scans skip
  the other rows. \<open>eviction_stop\<close> is the condition under which the global scan stops
  after removing the rows \<open>removed\<close>.
\<close>

definition has_valid_token :: "sql_env \<Rightarrow> dictionary_row \<Rightarrow> bool" where
  "has_valid_token env r \<longleftrightarrow> ToUnguessableToken env (token_high r) (token_low r) \<noteq> None"

definition valid_rows :: "sql_env \<Rightarrow> dictionary_row list \<Rightarrow> dictionary_row list" where
  "valid_rows env rs = filter (has_valid_token env) rs"

definition row_tokens :: "sql_env \<Rightarrow> dictionary_row list \<Rightarrow> UnguessableToken list" where
  "row_tokens env rs = List.map_filter (\<lambda>r. ToUnguessableToken env (token_high r) (token_low r)) rs"

definition eviction_stop ::
  "u64 \<Rightarrow> u64 \<Rightarrow> int \<Rightarrow> int \<Rightarrow> u64 \<Rightarrow> dictionary_row list \<Rightarrow> bool" where
  "eviction_stop cache_max_size size_low_watermark total_size total_count count_low_watermark removed \<longleftrightarrow>
     (cache_max_size = 0 \<or>
        total_size - (\<Sum>r\<leftarrow>removed. row_size r) \<le> uint size_low_watermark) \<and>
     int (length removed) \<ge> total_count - uint count_low_watermark"


text \<open>
  What the SQL engine guarantees of the table: \<^verbatim>\<open>id\<close> is the primary key, and with
  \<^verbatim>\<open>AUTOINCREMENT\<close> no row has an id above the largest one handed out.
\<close>

definition table_ok :: "db_state \<Rightarrow> bool" where
  "table_ok st \<longleftrightarrow>
     distinct (map id_col (dictionaries st)) \<and>
     (\<forall>r \<in> set (dictionaries st). id_col r \<le> last_row_id st)"


text \<open>The \<^verbatim>\<open>last_used_time\<close> a row has once \<^verbatim>\<open>DoCommit\<close> has run.\<close>

definition committed_time :: "sql_env \<Rightarrow> db_state \<Rightarrow> dictionary_row \<Rightarrow> int" where
  "committed_time env st r =
     (if pending_last_used_time_updates st = [] \<or> \<not> do_commit_ok env then last_used_time r
      else (case map_of (pending_last_used_time_updates st) (id_col r) of
              None \<Rightarrow> last_used_time r | Some t \<Rightarrow> t))"


text \<open>
  The invariant of the store. The counter is the sum of the \<^verbatim>\<open>size\<close> column in 64-bit
  arithmetic; the ids are distinct and not above the last one handed out; the unique index
  on the identity columns holds.
\<close>


definition identity_of :: "dictionary_row \<Rightarrow> string \<times> string \<times> string \<times> string" where
  "identity_of r = (frame_origin r, top_frame_site r, host r, match_col r)"

definition word_sum_of_sizes :: "dictionary_row list \<Rightarrow> u64" where
  "word_sum_of_sizes rs = (\<Sum>r\<leftarrow>rs. size_col r)"

definition rows_ok :: "int \<Rightarrow> dictionary_row list \<Rightarrow> bool" where
  "rows_ok max_id rs \<longleftrightarrow>
     distinct (map id_col rs) \<and> (\<forall>r\<in>set rs. id_col r \<le> max_id) \<and>
     distinct (map identity_of rs)"

definition store_inv :: "db_state \<Rightarrow> bool" where
  "store_inv st \<longleftrightarrow>
     total_dict_size st = word_sum_of_sizes (dictionaries st) \<and>
     rows_ok (last_row_id st) (dictionaries st)"


section \<open>Concrete inputs\<close>

text \<open>A key, and dictionaries for it that differ in match pattern, size, time and token.\<close>

definition example_key :: SharedDictionaryIsolationKey where
  "example_key =
     \<lparr> key_frame_origin = ''https://origin.test'', key_top_frame_site = ''https://site.test'' \<rparr>"

definition example_info :: "string \<Rightarrow> u64 \<Rightarrow> int \<Rightarrow> u64 \<Rightarrow> SharedDictionaryInfo" where
  "example_info m sz used tok =
     \<lparr> info_url = ''https://host.test/dict'', info_host = ''https://host.test'', info_match = m,
       info_response_time = 1, info_exp_time = 100, info_last_used_time = used,
       info_size = sz, info_hash = [], info_token_high = tok, info_token_low = tok \<rparr>"

definition example_db :: db_state where
  "example_db =
     \<lparr> dictionaries =
         [new_row example_key (example_info ''/a*'' 100 10 1) 1,
          new_row example_key (example_info ''/b*'' 200 20 2) 2],
       total_dict_size = 300, last_row_id = 2,
       pending_last_used_time_updates = [], begin_count = 0 \<rparr>"


text \<open>Two rows of the same site whose stored token is all zero.\<close>

definition null_token_db :: db_state where
  "null_token_db =
     \<lparr> dictionaries =
         [new_row example_key (example_info ''/x*'' 100 10 0) 1,
          new_row example_key (example_info ''/y*'' 200 20 0) 2],
       total_dict_size = 300, last_row_id = 2,
       pending_last_used_time_updates = [], begin_count = 0 \<rparr>"

text \<open>
  Five registrations without a per-site size limit, of \<open>2^62\<close>, \<open>2^62\<close>, \<open>2^63\<close>, \<open>2^62\<close> and
  \<open>2^62\<close> bytes, the third one being the least recently used, followed by a global
  eviction that has to remove one dictionary.
\<close>

definition overflow_ops :: "(sql_env \<times> store_op) list" where
  "overflow_ops =
     [(good_env, OpRegisterDictionary example_key (example_info ''/a*'' (2 ^ 62) 10 1) 0 10),
      (good_env, OpRegisterDictionary example_key (example_info ''/b*'' (2 ^ 62) 11 2) 0 10),
      (good_env, OpRegisterDictionary example_key (example_info ''/d*'' (2 ^ 63) 5 3) 0 10),
      (good_env, OpRegisterDictionary example_key (example_info ''/c*'' (2 ^ 62) 12 4) 0 10),
      (good_env, OpRegisterDictionary example_key (example_info ''/e*'' (2 ^ 62) 13 5) 0 10),
      (good_env, OpProcessEviction 0 0 4 4)]"

section \<open>The writers of a cache entry: data\<close>

text \<open>
  \<^verbatim>\<open>HttpCache::Writers\<close> lets several transactions share one network read and one cache
  write. A transaction is known by its identity only; a buffer is the list of its bytes.
  Net error codes are integers, with the values of \<^verbatim>\<open>net_error_list.h\<close>.
\<close>

type_synonym Transaction = nat
type_synonym byte = "8 word"

definition OK :: int where "OK = 0"
definition ERR_IO_PENDING :: int where "ERR_IO_PENDING = - 1"
definition ERR_FAILED :: int where "ERR_FAILED = - 2"
definition ERR_CACHE_WRITE_FAILURE :: int where "ERR_CACHE_WRITE_FAILURE = - 401"

datatype State =
    UNSET
  | NONE
  | NETWORK_READ
  | NETWORK_READ_COMPLETE
  | CACHE_WRITE_DATA
  | CACHE_WRITE_DATA_COMPLETE
  | MARK_SINGLE_KEYED_CACHE_ENTRY_UNUSABLE
  | MARK_SINGLE_KEYED_CACHE_ENTRY_UNUSABLE_COMPLETE

datatype ParallelWritingPattern =
    PARALLEL_WRITING_NONE
  | PARALLEL_WRITING_JOIN
  | PARALLEL_WRITING_NOT_JOIN nat

text \<open>
  The response headers, as far as the writers read them: the response code,
  \<^verbatim>\<open>GetContentLength()\<close> (negative when there is none),
  \<^verbatim>\<open>HasHeaderValue("Accept-Ranges", "none")\<close>, \<^verbatim>\<open>HasStrongValidators()\<close> and
  \<^verbatim>\<open>HasHeader("Content-Encoding")\<close>.
\<close>

record HttpResponseHeaders =
  response_code :: int
  content_length :: int
  accept_ranges_none :: bool
  strong_validators :: bool
  content_encoding :: bool

record HttpResponseInfo =
  headers :: "HttpResponseHeaders option"
  single_keyed_cache_entry_unusable :: bool

text \<open>\<^verbatim>\<open>TransactionInfo\<close>; \<open>partial\<close> says whether \<^verbatim>\<open>partial\<close> is a non-null pointer.\<close>

record TransactionInfo =
  partial :: bool
  truncated :: bool
  response_info :: HttpResponseInfo

text \<open>\<^verbatim>\<open>WaitingForRead\<close>: the buffer of a queued consumer, its length, and the bytes copied.\<close>

record WaitingForRead =
  waiting_read_buf :: "byte list"
  waiting_read_buf_len :: int
  waiting_write_len :: int

text \<open>
  What the writers do to their collaborators, in the order in which they do it: the
  notification of a transaction that leaves, the task posted with a queued consumer's
  callback (with the result and the content of that consumer's buffer at that time), the
  run of the active consumer's callback, the calls of the network transaction, the writes
  to the disk entry (response body, through \<^verbatim>\<open>WriteData\<close> or \<^verbatim>\<open>PartialData::CacheWrite\<close>,
  and response info, truncated or not), and the calls back into the cache.
\<close>

datatype event =
    WriterAboutToBeRemovedFromEntry Transaction int
  | PostTask_callback Transaction int "byte list"
  | Run_callback int
  | NetworkTransaction_Read int
  | NetworkTransaction_SetPriority nat
  | NetworkTransaction_CloseConnectionOnDestruction
  | WriteData_response_content int "byte list"
  | PartialData_CacheWrite "byte list"
  | WriteData_response_info bool
  | WritersDoomEntryRestartTransactions
  | WritersDoneWritingToEntry bool bool "Transaction list"

text \<open>
  The members of \<^verbatim>\<open>HttpCache::Writers\<close>, without the trailing underscore. The two maps are
  association lists in key order. \<open>network_transaction\<close>, \<open>checksum\<close> and \<open>has_callback\<close>
  say whether the pointer or callback is set; \<open>cache_callback\<close> holds the arguments bound
  by \<^verbatim>\<open>SetCacheCallback\<close>. \<open>events\<close> is the log of what has been done to the collaborators.
\<close>

record Writers =
  next_state :: State
  all_writers :: "(Transaction \<times> TransactionInfo) list"
  waiting_for_read :: "(Transaction \<times> WaitingForRead) list"
  active_transaction :: "Transaction option"
  has_callback :: bool
  cache_callback :: "(bool \<times> bool \<times> Transaction list) option"
  read_buf :: "byte list option"
  io_buf_len :: int
  write_len :: int
  network_read_only :: bool
  should_keep_entry :: bool
  is_exclusive :: bool
  partial_do_not_truncate :: bool
  parallel_writing_pattern :: ParallelWritingPattern
  priority :: nat
  network_transaction :: bool
  checksum :: bool
  response_info_truncation :: HttpResponseInfo
  events :: "event list"

text \<open>
  What the collaborators answer during one call into the writers: the result of
  \<^verbatim>\<open>network_transaction_->Read\<close> (\<open>ERR_IO_PENDING\<close> when it completes later) and the bytes
  it delivers when it completes at once, the results of the write of the response body and
  of the response info, \<^verbatim>\<open>GetDataSize(kResponseContentIndex)\<close> at its three call sites,
  \<^verbatim>\<open>ResponseChecksumMatches\<close>, the content length of the network transaction's response,
  the size of the pickled response info, and \<^verbatim>\<open>priority()\<close> of each transaction.
\<close>

record io_env =
  network_read_result :: int
  network_read_data :: "byte list"
  cache_write_result :: int
  info_write_result :: int
  data_size_at_write :: int
  data_size_at_completion :: int
  data_size_at_truncate :: int
  checksum_matches :: bool
  network_content_length :: int
  pickle_size :: int
  transaction_priority :: "Transaction \<Rightarrow> nat"

section \<open>The writers of a cache entry: operations\<close>

text \<open>\<^verbatim>\<open>std::map\<close>: \<^verbatim>\<open>insert\<close> keeps an entry that is already there; \<^verbatim>\<open>erase\<close> by key.\<close>

definition map_insert :: "Transaction \<Rightarrow> 'v \<Rightarrow> (Transaction \<times> 'v) list \<Rightarrow> (Transaction \<times> 'v) list" where
  "map_insert k v m = (if k \<in> fst ` set m then m else insort_key fst (k, v) m)"

definition map_erase :: "Transaction \<Rightarrow> (Transaction \<times> 'v) list \<Rightarrow> (Transaction \<times> 'v) list" where
  "map_erase k m = filter (\<lambda>e. fst e \<noteq> k) m"

definition log_event :: "event \<Rightarrow> Writers \<Rightarrow> Writers" where
  "log_event e w = w\<lparr>events := events w @ [e]\<rparr>"

text \<open>\<^verbatim>\<open>memcpy(dst, src, n)\<close> on buffers that are long enough.\<close>

definition memcpy :: "byte list \<Rightarrow> byte list \<Rightarrow> int \<Rightarrow> byte list" where
  "memcpy dst src n = take (nat n) src @ drop (nat n) dst"

definition IsValidResponseForWriter :: "bool \<Rightarrow> HttpResponseInfo \<Rightarrow> bool" where
  "IsValidResponseForWriter is_partial info =
     (case headers info of
        None \<Rightarrow> False
      | Some h \<Rightarrow>
          if \<not> is_partial \<and> (response_code h \<noteq> 200 \<and> response_code h \<noteq> 304) then False
          else True)"

definition UpdatePriority :: "io_env \<Rightarrow> Writers \<Rightarrow> Writers" where
  "UpdatePriority env w =
     (let current_highest =
            foldl (\<lambda>h writer. max (transaction_priority env (fst writer)) h) 0 (all_writers w)
      in if priority w \<noteq> current_highest
         then (if network_transaction w
               then log_event (NetworkTransaction_SetPriority current_highest) w
               else w)\<lparr>priority := current_highest\<rparr>
         else w)"

text \<open>
  \<^verbatim>\<open>EraseTransaction(TransactionMap::iterator it, int result)\<close>, for an entry that exists.
\<close>

definition EraseTransaction_it :: "io_env \<Rightarrow> Transaction \<Rightarrow> int \<Rightarrow> Writers \<Rightarrow> Writers" where
  "EraseTransaction_it env transaction result w =
     (let w1 = log_event (WriterAboutToBeRemovedFromEntry transaction result) w;
          w2 = w1\<lparr>all_writers := map_erase transaction (all_writers w1)\<rparr>;
          w3 = (if all_writers w2 = [] \<and> next_state w2 = NONE
                then w2\<lparr>network_transaction := False\<rparr>
                else UpdatePriority env w2)
      in if active_transaction w3 = Some transaction
         then w3\<lparr>active_transaction := None\<rparr>
         else w3\<lparr>waiting_for_read := map_erase transaction (waiting_for_read w3)\<rparr>)"

text \<open>
  \<^verbatim>\<open>EraseTransaction(Transaction* transaction, int result)\<close>. The source requires the
  transaction to be one of \<^verbatim>\<open>all_writers_\<close> (a \<^verbatim>\<open>DCHECK\<close>); for any other the state is left
  as it is here.
\<close>

definition EraseTransaction :: "io_env \<Rightarrow> Transaction \<Rightarrow> int \<Rightarrow> Writers \<Rightarrow> Writers" where
  "EraseTransaction env transaction result w =
     (if transaction \<in> fst ` set (all_writers w)
      then EraseTransaction_it env transaction result w
      else w)"

text \<open>
  The loop of \<^verbatim>\<open>CompleteWaitingForReadTransactions\<close> over the entries of
  \<^verbatim>\<open>waiting_for_read_\<close>.
\<close>

fun complete_waiting ::
  "io_env \<Rightarrow> int \<Rightarrow> (Transaction \<times> WaitingForRead) list \<Rightarrow> Writers \<Rightarrow> Writers"
where
  "complete_waiting env result [] w = w"
| "complete_waiting env result ((transaction, info) # rest) w =
     (let copied = min (waiting_read_buf_len info) result;
          buf = (if result \<ge> 0
                 then memcpy (waiting_read_buf info)
                        (case read_buf w of None \<Rightarrow> [] | Some src \<Rightarrow> src) copied
                 else waiting_read_buf info);
          callback_result = (if result \<ge> 0 then copied else result);
          w1 = log_event (PostTask_callback transaction callback_result buf) w;
          w2 = w1\<lparr>waiting_for_read := map_erase transaction (waiting_for_read w1)\<rparr>;
          w3 = (if result \<le> 0 then EraseTransaction env transaction result w2 else w2)
      in complete_waiting env result rest w3)"

definition CompleteWaitingForReadTransactions :: "io_env \<Rightarrow> int \<Rightarrow> Writers \<Rightarrow> Writers" where
  "CompleteWaitingForReadTransactions env result w =
     complete_waiting env result (waiting_for_read w) w"

text \<open>The loop of \<^verbatim>\<open>RemoveIdleWriters\<close> over the entries of \<^verbatim>\<open>all_writers_\<close>.\<close>

fun remove_idle :: "io_env \<Rightarrow> int \<Rightarrow> Transaction list \<Rightarrow> Writers \<Rightarrow> Writers" where
  "remove_idle env result [] w = w"
| "remove_idle env result (transaction # rest) w =
     (if Some transaction = active_transaction w then remove_idle env result rest w
      else remove_idle env result rest (EraseTransaction_it env transaction result w))"

definition RemoveIdleWriters :: "io_env \<Rightarrow> int \<Rightarrow> Writers \<Rightarrow> Writers" where
  "RemoveIdleWriters env result w = remove_idle env result (map fst (all_writers w)) w"

definition ProcessFailure :: "io_env \<Rightarrow> int \<Rightarrow> Writers \<Rightarrow> Writers" where
  "ProcessFailure env error w =
     RemoveIdleWriters env error (CompleteWaitingForReadTransactions env error w)"

text \<open>
  \<^verbatim>\<open>ShouldTruncate\<close> returns its answer and may clear \<^verbatim>\<open>should_keep_entry_\<close>. It reads the
  headers of \<^verbatim>\<open>response_info_truncation_\<close>; without headers the answer is no here.
\<close>

definition ShouldTruncate :: "io_env \<Rightarrow> Writers \<Rightarrow> bool \<times> Writers" where
  "ShouldTruncate env w =
     (if \<not> should_keep_entry w \<or> partial_do_not_truncate w then (False, w)
      else
        (case headers (response_info_truncation w) of
           None \<Rightarrow> (False, w)
         | Some h \<Rightarrow>
             if content_length h \<le> 0 \<or> accept_ranges_none h \<or> \<not> strong_validators h
             then (False, w\<lparr>should_keep_entry := False\<rparr>)
             else if data_size_at_truncate env = 0
             then (False, w\<lparr>should_keep_entry := False\<rparr>)
             else if content_encoding h
             then (False, w\<lparr>should_keep_entry := False\<rparr>)
             else if content_length h \<ge> 0 \<and> content_length h \<le> data_size_at_truncate env
             then (False, w)
             else (True, w)))"

definition TruncateEntry :: "io_env \<Rightarrow> Writers \<Rightarrow> Writers" where
  "TruncateEntry env w =
     log_event (WriteData_response_info True) (w\<lparr>io_buf_len := pickle_size env\<rparr>)"

definition SetCacheCallback :: "bool \<Rightarrow> Transaction list \<Rightarrow> Writers \<Rightarrow> Writers" where
  "SetCacheCallback success make_readers w =
     w\<lparr>cache_callback := Some (success, should_keep_entry w, make_readers)\<rparr>"

definition OnNetworkReadFailure :: "io_env \<Rightarrow> int \<Rightarrow> Writers \<Rightarrow> Writers" where
  "OnNetworkReadFailure env result w =
     (let w1 = ProcessFailure env result w;
          w2 = (case active_transaction w1 of
                  Some t \<Rightarrow> EraseTransaction env t result w1
                | None \<Rightarrow> w1);
          w3 = w2\<lparr>active_transaction := None\<rparr>;
          (truncate, w4) = ShouldTruncate env w3;
          w5 = (if truncate then TruncateEntry env w4 else w4)
      in SetCacheCallback False [] w5)"

definition OnCacheWriteFailure :: "io_env \<Rightarrow> Writers \<Rightarrow> Writers" where
  "OnCacheWriteFailure env w =
     (let w1 = ProcessFailure env ERR_CACHE_WRITE_FAILURE w;
          w2 = w1\<lparr>network_read_only := True, active_transaction := None,
                  should_keep_entry := False\<rparr>
      in if all_writers w2 = [] then SetCacheCallback False [] w2
         else log_event WritersDoomEntryRestartTransactions w2)"

text \<open>Whether the active transaction is a partial one, as the source looks it up.\<close>

definition active_is_partial :: "Writers \<Rightarrow> bool" where
  "active_is_partial w =
     (case active_transaction w of
        None \<Rightarrow> False
      | Some t \<Rightarrow> (case map_of (all_writers w) t of None \<Rightarrow> False | Some info \<Rightarrow> partial info))"

definition OnDataReceived :: "io_env \<Rightarrow> int \<Rightarrow> Writers \<Rightarrow> Writers" where
  "OnDataReceived env result w =
     (if active_is_partial w then w\<lparr>active_transaction := None\<rparr>
      else if result = 0 then
        (if network_content_length env \<ge> 0 \<and>
            network_content_length env > data_size_at_completion env
         then OnNetworkReadFailure env result w
         else
           let w1 = (case active_transaction w of
                       Some t \<Rightarrow> EraseTransaction env t result w
                     | None \<Rightarrow> w);
               w2 = w1\<lparr>active_transaction := None\<rparr>;
               w3 = CompleteWaitingForReadTransactions env (write_len w2) w2;
               make_readers = map fst (all_writers w3)
           in SetCacheCallback True make_readers (w3\<lparr>all_writers := []\<rparr>))
      else
        (CompleteWaitingForReadTransactions env (write_len w) w)\<lparr>active_transaction := None\<rparr>)"

section \<open>The state machine of the writers\<close>

definition DoNetworkRead :: "io_env \<Rightarrow> Writers \<Rightarrow> Writers \<times> int" where
  "DoNetworkRead env w =
     (let w1 = w\<lparr>next_state := NETWORK_READ_COMPLETE\<rparr>
      in if \<not> network_transaction w1 then (w1, ERR_FAILED)
         else
           let rv = network_read_result env;
               w2 = log_event (NetworkTransaction_Read (io_buf_len w1)) w1
           in (if rv > 0
               then w2\<lparr>read_buf := map_option (\<lambda>b. memcpy b (network_read_data env) rv)
                                      (read_buf w2)\<rparr>
               else w2,
               rv))"

definition DoNetworkReadComplete :: "io_env \<Rightarrow> int \<Rightarrow> Writers \<Rightarrow> Writers \<times> int" where
  "DoNetworkReadComplete env result w =
     (if result < 0
      then (OnNetworkReadFailure env result (w\<lparr>next_state := NONE\<rparr>), result)
      else (w\<lparr>next_state := CACHE_WRITE_DATA\<rparr>, result))"

definition DoCacheWriteData :: "io_env \<Rightarrow> int \<Rightarrow> Writers \<Rightarrow> Writers \<times> int" where
  "DoCacheWriteData env num_bytes w =
     (let w1 = w\<lparr>next_state := CACHE_WRITE_DATA_COMPLETE, write_len := num_bytes\<rparr>
      in if num_bytes = 0 \<or> network_read_only w1 then (w1, num_bytes)
         else
           let data = take (nat num_bytes) (case read_buf w1 of None \<Rightarrow> [] | Some b \<Rightarrow> b)
           in if \<not> active_is_partial w1
              then (log_event (WriteData_response_content (data_size_at_write env) data) w1,
                    cache_write_result env)
              else (log_event (PartialData_CacheWrite data) w1, cache_write_result env))"

text \<open>
  \<^verbatim>\<open>DoCacheWriteDataComplete\<close> aborts at \<^verbatim>\<open>CHECK(active_transaction_)\<close> when the checksum
  is to be verified and there is no active transaction; that is the result \<open>None\<close>.
\<close>

definition DoCacheWriteDataComplete :: "io_env \<Rightarrow> int \<Rightarrow> Writers \<Rightarrow> (Writers \<times> int) option" where
  "DoCacheWriteDataComplete env result w =
     (let w1 = w\<lparr>next_state := NONE\<rparr>;
          checked =
            (if checksum w1 then
               (if write_len w1 > 0 then Some w1
                else if active_transaction w1 = None then None
                else if \<not> checksum_matches env
                then Some (w1\<lparr>checksum := False,
                              next_state := MARK_SINGLE_KEYED_CACHE_ENTRY_UNUSABLE\<rparr>)
                else Some (w1\<lparr>checksum := False\<rparr>))
             else Some w1)
      in case checked of
           None \<Rightarrow> None
         | Some w2 \<Rightarrow>
             if result \<noteq> write_len w2
             then Some (OnCacheWriteFailure env w2, write_len w2)
             else Some (OnDataReceived env result w2, result))"

definition DoMarkSingleKeyedCacheEntryUnusable :: "io_env \<Rightarrow> Writers \<Rightarrow> Writers \<times> int" where
  "DoMarkSingleKeyedCacheEntryUnusable env w =
     (log_event (WriteData_response_info False)
        (w\<lparr>response_info_truncation :=
              (response_info_truncation w)\<lparr>single_keyed_cache_entry_unusable := True\<rparr>,
            next_state := MARK_SINGLE_KEYED_CACHE_ENTRY_UNUSABLE_COMPLETE,
            io_buf_len := pickle_size env\<rparr>),
      info_write_result env)"

definition DoMarkSingleKeyedCacheEntryUnusableComplete ::
  "io_env \<Rightarrow> int \<Rightarrow> Writers \<Rightarrow> Writers \<times> int"
where
  "DoMarkSingleKeyedCacheEntryUnusableComplete env result w =
     (let w1 = w\<lparr>next_state := NONE\<rparr>;
          w2 = (if result < 0 then OnCacheWriteFailure env w1 else w1)
      in (w2, write_len w2))"

text \<open>
  One turn of the \<^verbatim>\<open>switch\<close> in \<^verbatim>\<open>DoLoop\<close>, for the state read from \<^verbatim>\<open>next_state_\<close>; the
  caller has already set \<^verbatim>\<open>next_state_\<close> to \<^verbatim>\<open>UNSET\<close>.
\<close>

definition do_state :: "io_env \<Rightarrow> State \<Rightarrow> int \<Rightarrow> Writers \<Rightarrow> (Writers \<times> int) option" where
  "do_state env state rv w =
     (case state of
        NETWORK_READ \<Rightarrow> Some (DoNetworkRead env w)
      | NETWORK_READ_COMPLETE \<Rightarrow> Some (DoNetworkReadComplete env rv w)
      | CACHE_WRITE_DATA \<Rightarrow> Some (DoCacheWriteData env rv w)
      | CACHE_WRITE_DATA_COMPLETE \<Rightarrow> DoCacheWriteDataComplete env rv w
      | MARK_SINGLE_KEYED_CACHE_ENTRY_UNUSABLE \<Rightarrow>
          Some (DoMarkSingleKeyedCacheEntryUnusable env w)
      | MARK_SINGLE_KEYED_CACHE_ENTRY_UNUSABLE_COMPLETE \<Rightarrow>
          Some (DoMarkSingleKeyedCacheEntryUnusableComplete env rv w)
      | UNSET \<Rightarrow> Some (w, ERR_FAILED)
      | NONE \<Rightarrow> Some (w, rv))"

text \<open>
  The \<^verbatim>\<open>do ... while\<close> of \<^verbatim>\<open>DoLoop\<close>. It has no result when a \<^verbatim>\<open>CHECK\<close> aborts or when
  the loop does not end: once \<^verbatim>\<open>next_state_\<close> is \<^verbatim>\<open>UNSET\<close> at the top of the loop, every
  further turn leaves it so and sets the result to \<^verbatim>\<open>ERR_FAILED\<close>.
\<close>

partial_function (option) do_loop :: "io_env \<Rightarrow> int \<Rightarrow> Writers \<Rightarrow> (Writers \<times> int) option" where
  "do_loop env rv w =
     (case do_state env (next_state w) rv (w\<lparr>next_state := UNSET\<rparr>) of
        None \<Rightarrow> None
      | Some r \<Rightarrow>
          if next_state (fst r) \<noteq> NONE \<and> snd r \<noteq> ERR_IO_PENDING
          then do_loop env (snd r) (fst r)
          else Some r)"

declare do_loop.simps [code]

definition DoLoop :: "io_env \<Rightarrow> int \<Rightarrow> Writers \<Rightarrow> (Writers \<times> int) option" where
  "DoLoop env result w =
     (case do_loop env result w of
        None \<Rightarrow> None
      | Some (w1, rv) \<Rightarrow>
          if next_state w1 \<noteq> NONE
          then Some (if rv \<noteq> ERR_IO_PENDING \<and> has_callback w1
                     then log_event (Run_callback rv) (w1\<lparr>has_callback := False\<rparr>)
                     else w1,
                     rv)
          else
            let run = has_callback w1;
                w2 = w1\<lparr>has_callback := False, read_buf := None\<rparr>;
                w3 = (case cache_callback w2 of
                        None \<Rightarrow> w2
                      | Some (success, keep, make_readers) \<Rightarrow>
                          log_event (WritersDoneWritingToEntry success keep make_readers)
                            (w2\<lparr>cache_callback := None\<rparr>));
                w4 = (if rv \<noteq> ERR_IO_PENDING \<and> run then log_event (Run_callback rv) w3 else w3)
            in Some (w4, rv))"

definition OnIOComplete :: "io_env \<Rightarrow> int \<Rightarrow> Writers \<Rightarrow> (Writers \<times> int) option" where
  "OnIOComplete env result w = DoLoop env result w"

section \<open>The interface of the writers\<close>

definition Read ::
  "io_env \<Rightarrow> byte list \<Rightarrow> int \<Rightarrow> Transaction \<Rightarrow> Writers \<Rightarrow> (Writers \<times> int) option"
where
  "Read env buf buf_len transaction w =
     (if next_state w \<noteq> NONE
      then Some (w\<lparr>waiting_for_read :=
                     map_insert transaction
                       \<lparr> waiting_read_buf = buf, waiting_read_buf_len = buf_len,
                         waiting_write_len = 0 \<rparr>
                       (waiting_for_read w)\<rparr>,
                 ERR_IO_PENDING)
      else
        (case DoLoop env OK
                (w\<lparr>active_transaction := Some transaction, read_buf := Some buf,
                   io_buf_len := buf_len, next_state := NETWORK_READ\<rparr>) of
           None \<Rightarrow> None
         | Some (w1, rv) \<Rightarrow>
             Some (if rv = ERR_IO_PENDING then w1\<lparr>has_callback := True\<rparr> else w1, rv)))"

definition StopCaching :: "bool \<Rightarrow> Writers \<Rightarrow> Writers \<times> bool" where
  "StopCaching keep_entry w =
     (if length (all_writers w) \<noteq> 1 then (w, False)
      else
        let w1 = w\<lparr>network_read_only := True\<rparr>
        in (if \<not> keep_entry
            then log_event WritersDoomEntryRestartTransactions (w1\<lparr>should_keep_entry := False\<rparr>)
            else w1,
            True))"

definition CanAddWriters :: "Writers \<Rightarrow> bool" where
  "CanAddWriters w =
     (if all_writers w = [] then True else \<not> is_exclusive w \<and> \<not> network_read_only w)"

definition AddTransaction ::
  "Transaction \<Rightarrow> ParallelWritingPattern \<Rightarrow> nat \<Rightarrow> TransactionInfo \<Rightarrow> Writers \<Rightarrow> Writers"
where
  "AddTransaction transaction initial_writing_pattern prio info w =
     (let w1 = w\<lparr>response_info_truncation := response_info info,
                  should_keep_entry := IsValidResponseForWriter (partial info) (response_info info)\<rparr>;
          w2 = (if all_writers w1 = []
                then (let w' = w1\<lparr>parallel_writing_pattern := initial_writing_pattern\<rparr>
                      in if initial_writing_pattern \<noteq> PARALLEL_WRITING_JOIN
                         then w'\<lparr>is_exclusive := True\<rparr> else w')
                else w1);
          w3 = (if partial info \<and> \<not> truncated info
                then w2\<lparr>partial_do_not_truncate := True\<rparr> else w2);
          w4 = w3\<lparr>all_writers := map_insert transaction info (all_writers w3),
                   priority := max prio (priority w3)\<rparr>
      in if network_transaction w4
         then log_event (NetworkTransaction_SetPriority (priority w4)) w4
         else w4)"

text \<open>\<open>has_checksum\<close> says whether the caller hands over a checksum.\<close>

definition SetNetworkTransaction :: "bool \<Rightarrow> Writers \<Rightarrow> Writers" where
  "SetNetworkTransaction has_checksum w =
     (log_event (NetworkTransaction_SetPriority (priority w))
        (w\<lparr>network_transaction := True\<rparr>))\<lparr>checksum := has_checksum\<rparr>"

definition ResetNetworkTransaction :: "Writers \<Rightarrow> Writers" where
  "ResetNetworkTransaction w = w\<lparr>network_transaction := False\<rparr>"

definition CloseConnectionOnDestruction :: "Writers \<Rightarrow> Writers" where
  "CloseConnectionOnDestruction w =
     (if network_transaction w
      then log_event NetworkTransaction_CloseConnectionOnDestruction w
      else w)"

definition ContainsOnlyIdleWriters :: "Writers \<Rightarrow> bool" where
  "ContainsOnlyIdleWriters w = (waiting_for_read w = [] \<and> active_transaction w = None)"

definition RemoveTransaction :: "io_env \<Rightarrow> Transaction \<Rightarrow> bool \<Rightarrow> Writers \<Rightarrow> Writers" where
  "RemoveTransaction env transaction success w =
     (let w1 = EraseTransaction env transaction OK w
      in if all_writers w1 \<noteq> [] then w1
         else
           let (truncate, w2) = (if \<not> success then ShouldTruncate env w1 else (False, w1));
               w3 = (if truncate then TruncateEntry env w2 else w2)
           in log_event (WritersDoneWritingToEntry success (should_keep_entry w3) []) w3)"

section \<open>Sessions of the writers\<close>

text \<open>
  The calls that reach the writers during a session: the interface above, the completion of
  a pending network read or cache write (\<^verbatim>\<open>OnIOComplete\<close>), and the network transaction
  putting the bytes of a pending read into the buffer it was given.
\<close>

datatype writers_call =
    CallRead io_env "byte list" int Transaction
  | CallOnIOComplete io_env int
  | NetworkDelivers "byte list"
  | CallStopCaching bool
  | CallAddTransaction Transaction ParallelWritingPattern nat TransactionInfo
  | CallSetNetworkTransaction bool
  | CallResetNetworkTransaction
  | CallRemoveTransaction io_env Transaction bool
  | CallCloseConnectionOnDestruction

fun run_call :: "writers_call \<Rightarrow> Writers \<Rightarrow> Writers option" where
  "run_call (CallRead env buf buf_len transaction) w =
     map_option fst (Read env buf buf_len transaction w)"
| "run_call (CallOnIOComplete env result) w = map_option fst (OnIOComplete env result w)"
| "run_call (NetworkDelivers data) w =
     Some (w\<lparr>read_buf := map_option (\<lambda>b. memcpy b data (int (length data))) (read_buf w)\<rparr>)"
| "run_call (CallStopCaching keep_entry) w = Some (fst (StopCaching keep_entry w))"
| "run_call (CallAddTransaction transaction pattern prio info) w =
     Some (AddTransaction transaction pattern prio info w)"
| "run_call (CallSetNetworkTransaction has_checksum) w =
     Some (SetNetworkTransaction has_checksum w)"
| "run_call CallResetNetworkTransaction w = Some (ResetNetworkTransaction w)"
| "run_call (CallRemoveTransaction env transaction success) w =
     Some (RemoveTransaction env transaction success w)"
| "run_call CallCloseConnectionOnDestruction w = Some (CloseConnectionOnDestruction w)"

fun run_calls :: "writers_call list \<Rightarrow> Writers \<Rightarrow> Writers option" where
  "run_calls [] w = Some w"
| "run_calls (c # cs) w = (case run_call c w of None \<Rightarrow> None | Some w1 \<Rightarrow> run_calls cs w1)"

text \<open>What a log of events says about the queued callbacks, the removals and the writes.\<close>

fun posted_of :: "event \<Rightarrow> (Transaction \<times> int \<times> byte list) list" where
  "posted_of (PostTask_callback t r b) = [(t, r, b)]"
| "posted_of _ = []"

definition posted_callbacks :: "event list \<Rightarrow> (Transaction \<times> int \<times> byte list) list" where
  "posted_callbacks es = concat (map posted_of es)"

fun removal_of :: "event \<Rightarrow> (Transaction \<times> int) list" where
  "removal_of (WriterAboutToBeRemovedFromEntry t r) = [(t, r)]"
| "removal_of _ = []"

definition removals :: "event list \<Rightarrow> (Transaction \<times> int) list" where
  "removals es = concat (map removal_of es)"

fun is_body_write :: "event \<Rightarrow> bool" where
  "is_body_write (WriteData_response_content offset data) = True"
| "is_body_write (PartialData_CacheWrite data) = True"
| "is_body_write _ = False"

definition body_writes :: "event list \<Rightarrow> event list" where
  "body_writes es = filter is_body_write es"

definition truncations :: "event list \<Rightarrow> event list" where
  "truncations es = filter (\<lambda>e. e = WriteData_response_info True) es"

section \<open>A session of three writers\<close>

text \<open>
  Transaction 1 is the active one, with a buffer of four bytes that the network has filled;
  transaction 2 is queued with a buffer of four bytes; transaction 3 is idle. The response
  has strong validators and a content length of 1000, of which 500 bytes are in the cache.
\<close>

definition writer_info :: TransactionInfo where
  "writer_info =
     \<lparr> partial = False, truncated = False,
       response_info =
         \<lparr> headers = Some \<lparr> response_code = 200, content_length = 1000,
                            accept_ranges_none = False, strong_validators = True,
                            content_encoding = False \<rparr>,
           single_keyed_cache_entry_unusable = False \<rparr> \<rparr>"

definition session_env :: io_env where
  "session_env =
     \<lparr> network_read_result = 0, network_read_data = [], cache_write_result = 0,
       info_write_result = 64, data_size_at_write = 500, data_size_at_completion = 500,
       data_size_at_truncate = 500, checksum_matches = False, network_content_length = - 1,
       pickle_size = 64, transaction_priority = (\<lambda>t. 0) \<rparr>"

definition shared_session :: "State \<Rightarrow> Writers" where
  "shared_session s =
     \<lparr> next_state = s,
       all_writers = [(1, writer_info), (2, writer_info), (3, writer_info)],
       waiting_for_read =
         [(2, \<lparr> waiting_read_buf = [0, 0, 0, 0], waiting_read_buf_len = 4,
                 waiting_write_len = 0 \<rparr>)],
       active_transaction = Some 1,
       has_callback = True,
       cache_callback = None,
       read_buf = Some [10, 20, 30, 40],
       io_buf_len = 4,
       write_len = 4,
       network_read_only = False,
       should_keep_entry = True,
       is_exclusive = False,
       partial_do_not_truncate = False,
       parallel_writing_pattern = PARALLEL_WRITING_JOIN,
       priority = 0,
       network_transaction = True,
       checksum = True,
       response_info_truncation = response_info writer_info,
       events = [] \<rparr>"

section \<open>The precondition and the size gate of \<^verbatim>\<open>RegisterDictionary\<close>\<close>

lemma MaybeEvict_no_max_count_crash:
  "MaybeEvictDictionariesForPerSiteLimit env site ms mc t st
     \<noteq> Inl (Crash CHECK_NE_max_count_per_site)"
  by (auto simp: MaybeEvictDictionariesForPerSiteLimit_def split: sum.splits prod.splits)

text \<open>
  Claim C10. \<^verbatim>\<open>RegisterDictionaryImpl\<close> checks \<^verbatim>\<open>max_count_per_site != 0\<close> before anything
  else: with \<^verbatim>\<open>max_count_per_site == 0\<close> the call aborts at that check, returns no typed
  error and leaves the state as it was; with any other value that check never fires,
  whatever the other arguments, the state and the behaviour of the SQL engine are.
\<close>

theorem register_requires_nonzero_max_count:
  "(max_count_per_site = 0 \<longrightarrow>
      RegisterDictionaryImpl env k info max_size_per_site max_count_per_site st
        = (Inl (Crash CHECK_NE_max_count_per_site), st)) \<and>
   (max_count_per_site \<noteq> 0 \<longrightarrow>
      fst (RegisterDictionaryImpl env k info max_size_per_site max_count_per_site st)
        \<noteq> Inl (Crash CHECK_NE_max_count_per_site))"
  using MaybeEvict_no_max_count_crash
  by (auto simp: RegisterDictionaryImpl_def Let_def split: sum.splits prod.splits)

theorem register_requires_nonzero_max_count_witness:
  "RegisterDictionaryImpl good_env example_key (example_info ''/p*'' 500 1 7) 0 0 initial_db
        = (Inl (Crash CHECK_NE_max_count_per_site), initial_db) \<and>
   fst (RegisterDictionaryImpl good_env example_key (example_info ''/p*'' 500 1 7) 0 1 initial_db)
        \<noteq> Inl (Crash CHECK_NE_max_count_per_site)"
  using
    register_requires_nonzero_max_count
      [of 0 good_env example_key "example_info ''/p*'' 500 1 7" 0 initial_db]
    register_requires_nonzero_max_count
      [of 1 good_env example_key "example_info ''/p*'' 500 1 7" 0 initial_db]
  by simp

text \<open>
  Claim C4, as amended. When \<^verbatim>\<open>max_count_per_site != 0\<close>, \<^verbatim>\<open>max_size_per_site != 0\<close> and the
  new dictionary is larger than \<^verbatim>\<open>max_size_per_site\<close>, the call returns
  \<^verbatim>\<open>kTooBigDictionary\<close> and the whole state is untouched: no transaction was begun, no row
  was inserted or replaced, the counter is the same and the pending last-used-time updates
  were not flushed.
\<close>

theorem register_too_big:
  assumes "max_count_per_site \<noteq> 0" and "max_size_per_site \<noteq> 0"
    and "uint (info_size info) > uint max_size_per_site"
  shows "RegisterDictionaryImpl env k info max_size_per_site max_count_per_site st
           = (Inl (Err kTooBigDictionary), st)"
  using assms by (simp add: RegisterDictionaryImpl_def)

theorem register_too_big_witness:
  "RegisterDictionaryImpl good_env example_key (example_info ''/p*'' 500 1 7) 400 10 initial_db
     = (Inl (Err kTooBigDictionary), initial_db)"
  using register_too_big
    [of 10 400 "example_info ''/p*'' 500 1 7" good_env example_key initial_db]
  by (simp add: example_info_def)

text \<open>
  The claim as it was stated fails when \<^verbatim>\<open>max_count_per_site\<close> is 0: the size exceeds a
  nonzero \<^verbatim>\<open>max_size_per_site\<close>, yet the call aborts at the earlier check instead of
  returning \<^verbatim>\<open>kTooBigDictionary\<close>.
\<close>

theorem register_too_big_counterexample:
  "(400 :: u64) \<noteq> 0 \<and>
   uint (info_size (example_info ''/p*'' 500 1 7)) > uint (400 :: u64) \<and>
   fst (RegisterDictionaryImpl good_env example_key (example_info ''/p*'' 500 1 7) 400 0
          initial_db) \<noteq> Inl (Err kTooBigDictionary)"
  by (simp add: RegisterDictionaryImpl_def example_info_def)

section \<open>What the global eviction selects\<close>

lemma row_tokens_Nil [simp]: "row_tokens env [] = []"
  by (simp add: row_tokens_def map_filter_simps)

lemma row_tokens_Cons:
  "row_tokens env (r # rs) =
     (case ToUnguessableToken env (token_high r) (token_low r) of
        None \<Rightarrow> row_tokens env rs | Some t \<Rightarrow> t # row_tokens env rs)"
  by (simp add: row_tokens_def map_filter_simps split: option.splits)

lemma valid_rows_Nil [simp]: "valid_rows env [] = []"
  by (simp add: valid_rows_def)

lemma valid_rows_Cons:
  "valid_rows env (r # rs) =
     (if ToUnguessableToken env (token_high r) (token_low r) = None then valid_rows env rs
      else r # valid_rows env rs)"
  by (simp add: valid_rows_def has_valid_token_def)

lemma length_row_tokens: "length (row_tokens env rs) = length (valid_rows env rs)"
  by (induction rs) (auto simp: row_tokens_Cons valid_rows_Cons split: option.splits)

lemma eviction_loop_char:
  "eviction_loop env cms slw trc rs (keys, toks, tot, out) = Inr (keys', toks', tot', out') \<Longrightarrow>
   \<exists>n. n \<le> length (valid_rows env rs) \<and>
       keys' = keys @ map id_col (take n (valid_rows env rs)) \<and>
       toks' = toks @ take n (row_tokens env rs) \<and>
       uint tot' = uint tot - (\<Sum>r\<leftarrow>take n (valid_rows env rs). row_size r) \<and>
       (valid_rows env rs \<noteq> [] \<longrightarrow> 1 \<le> n \<and> out' = tot') \<and>
       (valid_rows env rs = [] \<longrightarrow> out' = out) \<and>
       (n = length (valid_rows env rs) \<or>
          ((cms = 0 \<or> uint tot - (\<Sum>r\<leftarrow>take n (valid_rows env rs). row_size r) \<le> uint slw) \<and>
           trc \<le> int (length toks) + int n)) \<and>
       (\<forall>m. 1 \<le> m \<and> m < n \<longrightarrow>
          \<not> ((cms = 0 \<or> uint tot - (\<Sum>r\<leftarrow>take m (valid_rows env rs). row_size r) \<le> uint slw) \<and>
             trc \<le> int (length toks) + int m))"
proof (induction rs arbitrary: keys toks tot out)
  case Nil
  then show ?case by simp
next
  case (Cons r rs)
  show ?case
  proof (cases "ToUnguessableToken env (token_high r) (token_low r)")
    case None
    with Cons.prems have "eviction_loop env cms slw trc rs (keys, toks, tot, out) = Inr (keys', toks', tot', out')"
      by simp
    from Cons.IH [OF this] None show ?thesis
      by (simp add: valid_rows_Cons row_tokens_Cons)
  next
    case (Some t)
    let ?s = "size_col r"
    let ?vs = "valid_rows env rs"
    from Cons.prems Some have ok: "in_uint64 (uint tot - uint ?s)"
      by (auto simp: checked_u64_sub_size_def split: if_splits)
    then have ut: "uint (tot - ?s) = uint tot - uint ?s"
      by (simp add: in_uint64_def uint_sub_lem)
    have vr: "valid_rows env (r # rs) = r # ?vs" and rt: "row_tokens env (r # rs) = t # row_tokens env rs"
      using Some by (simp_all add: valid_rows_Cons row_tokens_Cons)
    show ?thesis
    proof (cases "(cms = 0 \<or> uint slw \<ge> uint (tot - ?s)) \<and> int (length (toks @ [t])) \<ge> trc")
      case True
      with Cons.prems Some ok have res: "keys' = keys @ [id_col r]" "toks' = toks @ [t]" "tot' = tot - ?s" "out' = tot - ?s"
        by (auto simp: checked_u64_sub_size_def Let_def split: if_splits)
      show ?thesis
        apply (rule exI [of _ 1])
        using True res ut by (simp add: vr rt row_size_def)
    next
      case False
      with Cons.prems Some ok have
        "eviction_loop env cms slw trc rs (keys @ [id_col r], toks @ [t], tot - ?s, tot - ?s) = Inr (keys', toks', tot', out')"
        by (auto simp: checked_u64_sub_size_def Let_def split: if_splits)
      from Cons.IH [OF this] obtain n where n:
        "n \<le> length ?vs"
        "keys' = (keys @ [id_col r]) @ map id_col (take n ?vs)"
        "toks' = (toks @ [t]) @ take n (row_tokens env rs)"
        "uint tot' = uint (tot - ?s) - (\<Sum>r\<leftarrow>take n ?vs. row_size r)"
        "?vs \<noteq> [] \<longrightarrow> 1 \<le> n \<and> out' = tot'"
        "?vs = [] \<longrightarrow> out' = tot - ?s"
        "n = length ?vs \<or>
          ((cms = 0 \<or> uint (tot - ?s) - (\<Sum>r\<leftarrow>take n ?vs. row_size r) \<le> uint slw) \<and>
           trc \<le> int (length (toks @ [t])) + int n)"
        "\<forall>m. 1 \<le> m \<and> m < n \<longrightarrow>
          \<not> ((cms = 0 \<or> uint (tot - ?s) - (\<Sum>r\<leftarrow>take m ?vs. row_size r) \<le> uint slw) \<and>
             trc \<le> int (length (toks @ [t])) + int m)"
        by blast
      have out: "out' = tot'"
      proof (cases "?vs = []")
        case True
        with n(1,4,6) show ?thesis by (simp add: word_uint_eq_iff)
      next
        case False
        with n(5) show ?thesis by simp
      qed
      have shorter: "\<not> ((cms = 0 \<or> uint tot - (\<Sum>r\<leftarrow>take m (r # ?vs). row_size r) \<le> uint slw) \<and>
             trc \<le> int (length toks) + int m)" if m: "1 \<le> m" "m < Suc n" for m
      proof (cases m)
        case 0
        with m show ?thesis by simp
      next
        case (Suc k)
        show ?thesis
        proof (cases k)
          case 0
          with Suc False ut show ?thesis by (auto simp: row_size_def)
        next
          case (Suc j)
          with \<open>m = Suc k\<close> m have "1 \<le> k \<and> k < n" by simp
          with n(8) have
            "\<not> ((cms = 0 \<or> uint (tot - ?s) - (\<Sum>r\<leftarrow>take k ?vs. row_size r) \<le> uint slw) \<and>
             trc \<le> int (length (toks @ [t])) + int k)"
            by blast
          with \<open>m = Suc k\<close> ut show ?thesis by (auto simp: row_size_def)
        qed
      qed
      show ?thesis
        apply (rule exI [of _ "Suc n"])
        using n(1,2,3,4,7) out shorter ut
        by (auto simp: vr rt row_size_def)
    qed
  qed
qed


text \<open>
  Claim C1, as amended. Of a call of \<^verbatim>\<open>SelectEvictionCandidates\<close> that returns without an
  error: when the counter is within \<^verbatim>\<open>cache_max_size\<close> (or that is 0) and the number of rows
  is within \<^verbatim>\<open>cache_max_count\<close>, nothing is selected. Otherwise the rows whose token
  deserializes are taken in ascending order of \<^verbatim>\<open>last_used_time\<close>, and the victims are a
  prefix of them: the shortest prefix of at least one row after which the stop condition
  holds, or all of them when it holds after none. The value handed back for the counter is
  the old counter less the sizes of the victims.
\<close>

theorem select_eviction_candidates_prefix:
  assumes "SelectEvictionCandidates env cache_max_size size_low_watermark cache_max_count
             count_low_watermark st = Inr (primary_keys, tokens, total_after)"
  shows "if (cache_max_size = 0 \<or> RunningTotal st \<le> uint cache_max_size) \<and>
            int (length (dictionaries st)) \<le> uint cache_max_count
         then primary_keys = [] \<and> tokens = []
         else (\<exists>n.
           let ordered = order_by_last_used_time (dictionaries st);
               cand = valid_rows env ordered;
               stop = eviction_stop cache_max_size size_low_watermark (RunningTotal st)
                        (int (length (dictionaries st))) count_low_watermark
           in n \<le> length cand \<and>
              primary_keys = map id_col (take n cand) \<and>
              tokens = take n (row_tokens env ordered) \<and>
              (cand \<noteq> [] \<longrightarrow>
                 1 \<le> n \<and> uint total_after = RunningTotal st - (\<Sum>r\<leftarrow>take n cand. row_size r)) \<and>
              (n = length cand \<or> stop (take n cand)) \<and>
              (\<forall>m. 1 \<le> m \<and> m < n \<longrightarrow> \<not> stop (take m cand)))"
proof (cases "(cache_max_size = 0 \<or> RunningTotal st \<le> uint cache_max_size) \<and>
            int (length (dictionaries st)) \<le> uint cache_max_count")
  case True
  with assms show ?thesis
    by (auto simp: SelectEvictionCandidates_def GetTotalDictionarySizeImpl_def
        GetTotalDictionaryCount_def RunningTotal_def split: if_splits)
next
  case False
  define trc where "trc = (if int (length (dictionaries st)) > uint count_low_watermark
                   then int (length (dictionaries st)) - uint count_low_watermark else 0)"
  define ordered where "ordered = order_by_last_used_time (dictionaries st)"
  from assms False obtain tot' where
    loop: "eviction_loop env cache_max_size size_low_watermark trc ordered
             ([], [], total_dict_size st, 0) = Inr (primary_keys, tokens, tot', total_after)"
    by (auto simp: SelectEvictionCandidates_def GetTotalDictionarySizeImpl_def
        GetTotalDictionaryCount_def RunningTotal_def Let_def trc_def ordered_def
        split: if_splits sum.splits prod.splits)
  have trc: "trc \<le> int k \<longleftrightarrow> int (length (dictionaries st)) - uint count_low_watermark \<le> int k" for k
    by (simp add: trc_def)
  from eviction_loop_char [OF loop] obtain n where
    "n \<le> length (valid_rows env ordered)"
    "primary_keys = map id_col (take n (valid_rows env ordered))"
    "tokens = take n (row_tokens env ordered)"
    "uint tot' = uint (total_dict_size st) - (\<Sum>r\<leftarrow>take n (valid_rows env ordered). row_size r)"
    "valid_rows env ordered \<noteq> [] \<longrightarrow> 1 \<le> n \<and> total_after = tot'"
    "n = length (valid_rows env ordered) \<or>
          ((cache_max_size = 0 \<or> uint (total_dict_size st) - (\<Sum>r\<leftarrow>take n (valid_rows env ordered). row_size r) \<le> uint size_low_watermark) \<and>
           trc \<le> int n)"
    "\<forall>m. 1 \<le> m \<and> m < n \<longrightarrow>
          \<not> ((cache_max_size = 0 \<or> uint (total_dict_size st) - (\<Sum>r\<leftarrow>take m (valid_rows env ordered). row_size r) \<le> uint size_low_watermark) \<and>
             trc \<le> int m)"
    by auto
  then have "let ordered = order_by_last_used_time (dictionaries st);
               cand = valid_rows env ordered;
               stop = eviction_stop cache_max_size size_low_watermark (RunningTotal st)
                        (int (length (dictionaries st))) count_low_watermark
           in n \<le> length cand \<and>
              primary_keys = map id_col (take n cand) \<and>
              tokens = take n (row_tokens env ordered) \<and>
              (cand \<noteq> [] \<longrightarrow>
                 1 \<le> n \<and> uint total_after = RunningTotal st - (\<Sum>r\<leftarrow>take n cand. row_size r)) \<and>
              (n = length cand \<or> stop (take n cand)) \<and>
              (\<forall>m. 1 \<le> m \<and> m < n \<longrightarrow> \<not> stop (take m cand))"
    unfolding Let_def eviction_stop_def RunningTotal_def ordered_def [symmetric] trc
    by (auto simp: min_def)
  with False show ?thesis by (simp only: if_False) blast
qed

theorem select_eviction_candidates_prefix_witness:
  "SelectEvictionCandidates good_env 250 200 10 10 example_db = Inr ([1], [(1, 1)], 200) \<and>
   (if (250 = (0 :: u64) \<or> RunningTotal example_db \<le> uint (250 :: u64)) \<and>
       int (length (dictionaries example_db)) \<le> uint (10 :: u64)
    then [1 :: int] = [] \<and> [(1 :: u64, 1 :: u64)] = []
    else (\<exists>n.
      let ordered = order_by_last_used_time (dictionaries example_db);
          cand = valid_rows good_env ordered;
          stop = eviction_stop 250 200 (RunningTotal example_db)
                   (int (length (dictionaries example_db))) 10
      in n \<le> length cand \<and>
         [1] = map id_col (take n cand) \<and>
         [(1, 1)] = take n (row_tokens good_env ordered) \<and>
         (cand \<noteq> [] \<longrightarrow>
            1 \<le> n \<and> uint (200 :: u64) = RunningTotal example_db - (\<Sum>r\<leftarrow>take n cand. row_size r)) \<and>
         (n = length cand \<or> stop (take n cand)) \<and>
         (\<forall>m. 1 \<le> m \<and> m < n \<longrightarrow> \<not> stop (take m cand))))"
proof -
  have run: "SelectEvictionCandidates good_env 250 200 10 10 example_db = Inr ([1], [(1, 1)], 200)"
    by (simp add: example_db_def SelectEvictionCandidates_def GetTotalDictionarySizeImpl_def
        GetTotalDictionaryCount_def good_env_def order_by_last_used_time_def new_row_def
        example_info_def example_key_def ToUnguessableToken_def checked_u64_sub_size_def
        in_uint64_def in_int64_def)
  from run select_eviction_candidates_prefix [OF run] show ?thesis
    by (rule conjI)
qed

text \<open>
  The claim as it was stated asks for the shortest prefix, the empty one included. With two
  rows, \<^verbatim>\<open>cache_max_count = 1\<close> and \<^verbatim>\<open>count_low_watermark = 3\<close> the count is over the
  maximum, so the scan runs; the stop condition already holds for the empty prefix, yet
  the scan tests it only after taking a row, and the oldest row is selected.
\<close>

theorem select_eviction_candidates_counterexample:
  "\<not> ((0 = (0 :: u64) \<or> RunningTotal example_db \<le> uint (0 :: u64)) \<and>
       int (length (dictionaries example_db)) \<le> uint (1 :: u64)) \<and>
   SelectEvictionCandidates good_env 0 0 1 3 example_db = Inr ([1], [(1, 1)], 200) \<and>
   eviction_stop 0 0 (RunningTotal example_db) (int (length (dictionaries example_db))) 3 []"
  by (simp add: example_db_def SelectEvictionCandidates_def GetTotalDictionarySizeImpl_def
      GetTotalDictionaryCount_def good_env_def order_by_last_used_time_def new_row_def
      example_info_def example_key_def ToUnguessableToken_def checked_u64_sub_size_def
      in_uint64_def in_int64_def eviction_stop_def RunningTotal_def)


section \<open>What a registration does to the site and to the counter\<close>


lemma sint_word_of_int_in_range:
  assumes "in_int64 x"
  shows "sint (word_of_int x :: u64) = x"
  using assms by (simp add: sint_sbintrunc' in_int64_def signed_take_bit_int_eq_self)

lemma uint_word_of_int_in_range:
  assumes "in_uint64 x"
  shows "uint (word_of_int x :: u64) = x"
  using assms by (simp add: uint_word_of_int in_uint64_def)

lemma sint_add_in_range:
  fixes c s :: u64
  assumes "in_int64 (sint c + uint s)"
  shows "sint (c + s) = sint c + uint s"
proof -
  have "c + s = word_of_int (sint c + uint s)" by simp
  then show ?thesis using sint_word_of_int_in_range [OF assms] by simp
qed

lemma uint_add_in_range:
  fixes c s :: u64
  assumes "in_uint64 (uint c + uint s)"
  shows "uint (c + s) = uint c + uint s"
proof -
  have "c + s = word_of_int (uint c + uint s)" by simp
  then show ?thesis using uint_word_of_int_in_range [OF assms] by simp
qed

lemma uint_add_sint_in_range:
  fixes c d :: u64
  assumes "in_uint64 (uint c + sint d)"
  shows "uint (c + d) = uint c + sint d"
proof -
  have "c + d = word_of_int (uint c + sint d)" by simp
  then show ?thesis using uint_word_of_int_in_range [OF assms] by simp
qed

lemma sint_eq_uint_small:
  fixes w :: u64
  assumes "uint w < 2 ^ 63"
  shows "sint w = uint w"
proof -
  have "0 \<le> uint w" by simp
  with assms have "in_int64 (uint w)" unfolding in_int64_def by linarith
  then have "sint (word_of_int (uint w) :: u64) = uint w"
    by (rule sint_word_of_int_in_range)
  then show ?thesis by simp
qed


lemma per_site_loop_char:
  "per_site_loop env trs trc rs (keys, toks, c) = Inr (keys', toks', c') \<Longrightarrow>
   \<exists>n. n \<le> length (valid_rows env rs) \<and>
       keys' = keys @ map id_col (take n (valid_rows env rs)) \<and>
       toks' = toks @ take n (row_tokens env rs) \<and>
       c' = c + (\<Sum>r\<leftarrow>take n (valid_rows env rs). size_col r) \<and>
       sint c' = sint c + (\<Sum>r\<leftarrow>take n (valid_rows env rs). row_size r) \<and>
       (valid_rows env rs \<noteq> [] \<longrightarrow> 1 \<le> n) \<and>
       (n = length (valid_rows env rs) \<or>
          (sint trs \<le> sint c' \<and> trc \<le> int (length toks) + int n))"
proof (induction rs arbitrary: keys toks c)
  case Nil
  then show ?case by simp
next
  case (Cons r rs)
  show ?case
  proof (cases "ToUnguessableToken env (token_high r) (token_low r)")
    case None
    with Cons.prems have "per_site_loop env trs trc rs (keys, toks, c) = Inr (keys', toks', c')"
      by simp
    from Cons.IH [OF this] None show ?thesis
      by (simp add: valid_rows_Cons row_tokens_Cons)
  next
    case (Some t)
    let ?s = "size_col r"
    let ?vs = "valid_rows env rs"
    from Cons.prems Some have ok: "in_int64 (sint c + uint ?s)"
      by (auto simp: checked_i64_add_size_def split: if_splits)
    then have st: "sint (c + ?s) = sint c + uint ?s"
      by (rule sint_add_in_range)
    have vr: "valid_rows env (r # rs) = r # ?vs" and rt: "row_tokens env (r # rs) = t # row_tokens env rs"
      using Some by (simp_all add: valid_rows_Cons row_tokens_Cons)
    show ?thesis
    proof (cases "sint (c + ?s) \<ge> sint trs \<and> int (length (toks @ [t])) \<ge> trc")
      case True
      with Cons.prems Some ok have res: "keys' = keys @ [id_col r]" "toks' = toks @ [t]" "c' = c + ?s"
        by (auto simp: checked_i64_add_size_def Let_def split: if_splits)
      show ?thesis
        apply (rule exI [of _ 1])
        using True res st by (auto simp: vr rt row_size_def)
    next
      case False
      with Cons.prems Some ok have
        "per_site_loop env trs trc rs (keys @ [id_col r], toks @ [t], c + ?s) = Inr (keys', toks', c')"
        by (auto simp: checked_i64_add_size_def Let_def split: if_splits)
      from Cons.IH [OF this] obtain n where n:
        "n \<le> length ?vs"
        "keys' = (keys @ [id_col r]) @ map id_col (take n ?vs)"
        "toks' = (toks @ [t]) @ take n (row_tokens env rs)"
        "c' = (c + ?s) + (\<Sum>r\<leftarrow>take n ?vs. size_col r)"
        "sint c' = sint (c + ?s) + (\<Sum>r\<leftarrow>take n ?vs. row_size r)"
        "n = length ?vs \<or> (sint trs \<le> sint c' \<and> trc \<le> int (length (toks @ [t])) + int n)"
        by blast
      show ?thesis
        apply (rule exI [of _ "Suc n"])
        using n st by (auto simp: vr rt row_size_def)
    qed
  qed
qed


lemma delete_primary_keys_char:
  "delete_primary_keys env keys st = Inr st' \<Longrightarrow>
   st' = st\<lparr>dictionaries := filter (\<lambda>r. id_col r \<notin> set keys) (dictionaries st)\<rparr>"
proof (induction keys arbitrary: st)
  case Nil
  then show ?case by simp
next
  case (Cons k ks)
  from Cons.prems obtain st1 where
    d: "DeleteDictionaryByPrimaryKey env k st = Inr st1" and
    r: "delete_primary_keys env ks st1 = Inr st'"
    by (auto split: sum.splits)
  from d have "st1 = st\<lparr>dictionaries := filter (\<lambda>r. id_col r \<noteq> k) (dictionaries st)\<rparr>"
    by (auto simp: DeleteDictionaryByPrimaryKey_def split: if_splits)
  with Cons.IH [OF r] show ?case
    by (simp add: conj_commute)
qed

lemma sum_list_remove_by_id:
  fixes f :: "dictionary_row \<Rightarrow> 'a::ab_group_add"
  assumes "distinct (map id_col xs)" and "set vs \<subseteq> set xs" and "distinct vs"
  shows "(\<Sum>r\<leftarrow>filter (\<lambda>r. id_col r \<notin> set (map id_col vs)) xs. f r)
           = (\<Sum>r\<leftarrow>xs. f r) - (\<Sum>r\<leftarrow>vs. f r)"
proof -
  from assms(1) have dx: "distinct xs" and inj: "inj_on id_col (set xs)"
    by (simp_all add: distinct_map)
  have set_eq: "set (filter (\<lambda>r. id_col r \<notin> set (map id_col vs)) xs) = set xs - set vs"
    using inj assms(2) by (auto simp: inj_on_def)
  have "(\<Sum>r\<leftarrow>filter (\<lambda>r. id_col r \<notin> set (map id_col vs)) xs. f r) = sum f (set xs - set vs)"
    using dx set_eq by (simp add: sum_list_distinct_conv_sum_set)
  also have "\<dots> = sum f (set xs) - sum f (set vs)"
    using assms(2) by (simp add: sum_diff)
  also have "\<dots> = (\<Sum>r\<leftarrow>xs. f r) - (\<Sum>r\<leftarrow>vs. f r)"
    using dx assms(3) by (simp add: sum_list_distinct_conv_sum_set)
  finally show ?thesis .
qed

lemma length_remove_by_id:
  fixes xs vs :: "dictionary_row list"
  assumes "distinct (map id_col xs)" and "set vs \<subseteq> set xs" and "distinct vs"
  shows "int (length (filter (\<lambda>r. id_col r \<notin> set (map id_col vs)) xs))
           = int (length xs) - int (length vs)"
  using sum_list_remove_by_id [OF assms, of "\<lambda>_. 1 :: int"]
  by (simp add: sum_list_triv)

lemma DoCommit_rows:
  "dictionaries (DoCommit env st)
     = map (\<lambda>r. r\<lparr>last_used_time := committed_time env st r\<rparr>) (dictionaries st)"
  by (auto simp: DoCommit_def Let_def apply_last_used_time_def committed_time_def
      split: option.splits)

lemma DoCommit_other [simp]:
  "total_dict_size (DoCommit env st) = total_dict_size st"
  "last_row_id (DoCommit env st) = last_row_id st"
  by (simp_all add: DoCommit_def Let_def)

lemma begin_transaction_simps [simp]:
  "dictionaries (begin_transaction st) = dictionaries st"
  "total_dict_size (begin_transaction st) = total_dict_size st"
  "last_row_id (begin_transaction st) = last_row_id st"
  by (simp_all add: begin_transaction_def)

lemma site_rows_total [simp]:
  "site_rows site (st\<lparr>total_dict_size := x\<rparr>) = site_rows site st"
  by (simp add: site_rows_def)

lemma per_site_totals_irrelevant [simp]:
  "GetDictionarySizePerSite env site (st\<lparr>total_dict_size := x\<rparr>)
     = GetDictionarySizePerSite env site st"
  "GetDictionaryCountPerSite env site (st\<lparr>total_dict_size := x\<rparr>)
     = GetDictionaryCountPerSite env site st"
  by (simp_all add: GetDictionarySizePerSite_def GetDictionaryCountPerSite_def)

lemma SelectCandidates_total_irrelevant [simp]:
  "SelectCandidatesForPerSiteEviction env site ms mc (st\<lparr>total_dict_size := x\<rparr>)
     = SelectCandidatesForPerSiteEviction env site ms mc st"
  unfolding SelectCandidatesForPerSiteEviction_def per_site_totals_irrelevant site_rows_total ..

lemma UpdateTotal_char:
  "UpdateTotalDictionarySizeInMetaTable env d st = Inr (t, st') \<Longrightarrow>
   t = total_dict_size st + d \<and> st' = st\<lparr>total_dict_size := total_dict_size st + d\<rparr> \<and>
   uint t = uint (total_dict_size st) + sint d"
  by (auto simp: UpdateTotalDictionarySizeInMetaTable_def GetTotalDictionarySizeImpl_def
      checked_u64_add_int64_def uint_add_sint_in_range split: if_splits)

lemma MaybeEvict_char:
  assumes "MaybeEvictDictionariesForPerSiteLimit env site ms mc t st = Inr (toks, t', st')"
  shows "\<exists>keys cand.
     SelectCandidatesForPerSiteEviction env site ms mc st = Inr (keys, toks, cand) \<and>
     length keys = length toks \<and>
     dictionaries st' = filter (\<lambda>r. id_col r \<notin> set keys) (dictionaries st) \<and>
     last_row_id st' = last_row_id st \<and>
     (keys = [] \<longrightarrow> t' = t \<and> st' = st) \<and>
     (keys \<noteq> [] \<longrightarrow> t' = total_dict_size st - cand \<and> total_dict_size st' = total_dict_size st - cand)"
proof -
  from assms obtain keys cand where
    sel: "SelectCandidatesForPerSiteEviction env site ms mc st = Inr (keys, toks, cand)"
    and len: "length keys = length toks"
    by (auto simp: MaybeEvictDictionariesForPerSiteLimit_def split: sum.splits prod.splits if_splits)
  show ?thesis
  proof (cases "keys = []")
    case True
    with assms sel len show ?thesis
      by (auto simp: MaybeEvictDictionariesForPerSiteLimit_def)
  next
    case False
    with assms sel len obtain st1 where
      del: "delete_primary_keys env keys st = Inr st1" and
      upd: "UpdateTotalDictionarySizeInMetaTable env (- cand) st1 = Inr (t', st')"
      by (auto simp: MaybeEvictDictionariesForPerSiteLimit_def split: sum.splits prod.splits if_splits)
    from delete_primary_keys_char [OF del] UpdateTotal_char [OF upd] sel len False
    show ?thesis by auto
  qed
qed


lemma Register_success:
  assumes "RegisterDictionaryImpl env k info ms mc st = (Inr res, st')"
  shows "\<exists>keys toks cand.
    mc \<noteq> 0 \<and> sql_valid env \<and>
    SelectCandidatesForPerSiteEviction env (key_top_frame_site k) ms mc
       (insert_or_replace k info (begin_transaction (DoCommit env st))) = Inr (keys, toks, cand) \<and>
    dictionaries st' = filter (\<lambda>r. id_col r \<notin> set keys)
       (dictionaries (insert_or_replace k info (begin_transaction (DoCommit env st)))) \<and>
    total_dict_size st' = total_dict_size st
       + compute_size_delta env k info (begin_transaction (DoCommit env st))
       - (if keys = [] then 0 else cand) \<and>
    evicted_disk_cache_key_tokens res = set toks \<and>
    total_dictionary_size res = total_dict_size st'"
proof -
  define st1 where "st1 = begin_transaction (DoCommit env st)"
  define st2 where "st2 = insert_or_replace k info st1"
  define delta where "delta = compute_size_delta env k info st1"
  from assms have pre: "mc \<noteq> 0" "sql_valid env"
    by (auto simp: RegisterDictionaryImpl_def Let_def split: if_splits)
  from assms obtain t st3 evicted t' where
    upd: "UpdateTotalDictionarySizeInMetaTable env delta st2 = Inr (t, st3)" and
    ev: "MaybeEvictDictionariesForPerSiteLimit env (key_top_frame_site k) ms mc t st3
           = Inr (evicted, t', st')" and
    res: "evicted_disk_cache_key_tokens res = set evicted" "total_dictionary_size res = t'"
    unfolding RegisterDictionaryImpl_def Let_def st1_def [symmetric] st2_def [symmetric]
      delta_def [symmetric]
    by (auto split: if_splits sum.splits prod.splits)
  from UpdateTotal_char [OF upd] have t: "t = total_dict_size st2 + delta"
    and st3: "st3 = st2\<lparr>total_dict_size := total_dict_size st2 + delta\<rparr>"
    by simp_all
  from MaybeEvict_char [OF ev] obtain keys cand where
    sel: "SelectCandidatesForPerSiteEviction env (key_top_frame_site k) ms mc st3
            = Inr (keys, evicted, cand)"
    and rows: "dictionaries st' = filter (\<lambda>r. id_col r \<notin> set keys) (dictionaries st3)"
    and nil: "keys = [] \<longrightarrow> t' = t \<and> st' = st3"
    and cons: "keys \<noteq> [] \<longrightarrow> t' = total_dict_size st3 - cand \<and>
                 total_dict_size st' = total_dict_size st3 - cand"
    by blast
  have tot2: "total_dict_size st2 = total_dict_size st"
    by (simp add: st2_def st1_def insert_or_replace_def)
  have "total_dict_size st' = total_dict_size st + delta - (if keys = [] then 0 else cand)"
    using nil cons st3 tot2 by (cases "keys = []") simp_all
  moreover have "total_dictionary_size res = total_dict_size st'"
    using nil cons res t st3 by (cases "keys = []") simp_all
  moreover have "SelectCandidatesForPerSiteEviction env (key_top_frame_site k) ms mc st2
            = Inr (keys, evicted, cand)"
    using sel st3 by simp
  moreover have "dictionaries st' = filter (\<lambda>r. id_col r \<notin> set keys) (dictionaries st2)"
    using rows st3 by simp
  ultimately show ?thesis
    using pre res unfolding st1_def st2_def delta_def by blast
qed


lemma row_size_nonneg [simp]: "0 \<le> row_size r"
  by (simp add: row_size_def)

lemma sum_row_size_nonneg [simp]: "0 \<le> (\<Sum>r\<leftarrow>rs. row_size r)"
  by (induction rs) (simp_all add: add_nonneg_nonneg)

lemma sum_sint_eq_row_size:
  assumes "(\<Sum>r\<leftarrow>rs. row_size r) < 2 ^ 63"
  shows "(\<Sum>r\<leftarrow>rs. sint (size_col r)) = (\<Sum>r\<leftarrow>rs. row_size r)"
  using assms
proof (induction rs)
  case Nil
  then show ?case by simp
next
  case (Cons r rs)
  have nn: "0 \<le> row_size r" "0 \<le> (\<Sum>r\<leftarrow>rs. row_size r)" by simp_all
  from Cons.prems have "row_size r + (\<Sum>r\<leftarrow>rs. row_size r) < 2 ^ 63" by simp
  with nn have "row_size r < 2 ^ 63" and rest: "(\<Sum>r\<leftarrow>rs. row_size r) < 2 ^ 63"
    by linarith+
  then have small: "uint (size_col r) < 2 ^ 63" by (simp add: row_size_def)
  from sint_eq_uint_small [OF small] Cons.IH [OF rest] show ?case
    by (simp add: row_size_def)
qed

lemma sum_list_insort_key:
  fixes g :: "'b \<Rightarrow> 'a::comm_monoid_add"
  shows "(\<Sum>r\<leftarrow>insort_key f x xs. g r) = g x + (\<Sum>r\<leftarrow>xs. g r)"
  by (induction xs) (simp_all add: add.left_commute)

lemma sum_list_sort_key:
  fixes g :: "'b \<Rightarrow> 'a::comm_monoid_add"
  shows "(\<Sum>r\<leftarrow>sort_key f xs. g r) = (\<Sum>r\<leftarrow>xs. g r)"
  by (induction xs) (simp_all add: sum_list_insort_key)


lemma foldl_sum_step_small:
  assumes "0 \<le> a" and "a + (\<Sum>x\<leftarrow>xs. uint x) < 2 ^ 63"
  shows "foldl sum_step (Some a) xs = Some (a + (\<Sum>x\<leftarrow>xs. uint x))"
  using assms
proof (induction xs arbitrary: a)
  case Nil
  then show ?case by simp
next
  case (Cons x xs)
  have nn: "0 \<le> (\<Sum>x\<leftarrow>xs. uint x)" by (induction xs) simp_all
  have x0: "0 \<le> uint x" by simp
  have ub: "a + uint x + (\<Sum>x\<leftarrow>xs. uint x) < 2 ^ 63"
    using Cons.prems(2) by (simp add: add.assoc)
  from ub nn Cons.prems(1) have "uint x < 2 ^ 63" by linarith
  then have sx: "sint x = uint x" by (rule sint_eq_uint_small)
  have lo: "0 \<le> a + uint x" using Cons.prems(1) x0 by linarith
  have hi: "a + uint x < 2 ^ 63" using ub nn by linarith
  from lo hi have "in_int64 (a + uint x)" unfolding in_int64_def by linarith
  then have step: "sum_step (Some a) x = Some (a + uint x)"
    by (simp add: sum_step_def sx)
  from Cons.IH [OF lo ub] show ?case by (simp add: step add.assoc)
qed

lemma GetDictionarySizePerSite_small:
  assumes "sql_valid env" and "(\<Sum>r\<leftarrow>site_rows site st. row_size r) < 2 ^ 63"
  shows "GetDictionarySizePerSite env site st
           = Inr (word_of_int (\<Sum>r\<leftarrow>site_rows site st. row_size r))"
proof -
  have "(\<Sum>x\<leftarrow>map size_col (order_by_id (site_rows site st)). uint x)
          = (\<Sum>r\<leftarrow>site_rows site st. row_size r)"
    by (simp add: order_by_id_def row_size_def comp_def sum_list_sort_key)
  with assms(2) foldl_sum_step_small [of 0 "map size_col (order_by_id (site_rows site st))"]
  have "sqlite_sum (map size_col (order_by_id (site_rows site st)))
          = Some (\<Sum>r\<leftarrow>site_rows site st. row_size r)"
    by (simp add: sqlite_sum_def)
  with assms(1) show ?thesis by (simp add: GetDictionarySizePerSite_def)
qed

lemma valid_rows_all:
  "\<forall>r\<in>set rs. has_valid_token env r \<Longrightarrow> valid_rows env rs = rs"
  by (simp add: valid_rows_def)

lemma per_site_selection_limits:
  assumes sel: "SelectCandidatesForPerSiteEviction env site ms mc st = Inr (keys, toks, cand)"
    and dist: "distinct (map id_col (dictionaries st))"
    and valid: "\<forall>r\<in>set (site_rows site st). has_valid_token env r"
    and small: "(\<Sum>r\<leftarrow>site_rows site st. row_size r) < 2 ^ 63"
  shows "int (length (filter (\<lambda>r. id_col r \<notin> set keys) (site_rows site st))) \<le> uint mc \<and>
         (ms \<noteq> 0 \<longrightarrow>
            (\<Sum>r\<leftarrow>filter (\<lambda>r. id_col r \<notin> set keys) (site_rows site st). row_size r) \<le> uint ms)"
proof -
  define S where "S = site_rows site st"
  define T where "T = (\<Sum>r\<leftarrow>S. row_size r)"
  have T: "0 \<le> T" "T < 2 ^ 63" using small by (simp_all add: T_def S_def)
  have sz: "(\<Sum>r\<leftarrow>S. sint (size_col r)) = T"
    using sum_sint_eq_row_size small by (simp add: T_def S_def)
  have "in_uint64 T" using T by (simp add: in_uint64_def)
  then have uT: "uint (word_of_int T :: u64) = T" by (rule uint_word_of_int_in_range)
  have distS: "distinct (map id_col S)"
    using dist by (simp add: S_def site_rows_def distinct_map_filter)
  have valid_sql: "sql_valid env"
    using sel
    by (cases "sql_valid env")
       (simp_all add: SelectCandidatesForPerSiteEviction_def GetDictionarySizePerSite_def)
  have gsz: "GetDictionarySizePerSite env site st = Inr (word_of_int T)"
    unfolding T_def S_def using valid_sql small by (rule GetDictionarySizePerSite_small)
  show ?thesis
  proof (cases "(ms = 0 \<or> T \<le> uint ms) \<and> int (length S) \<le> uint mc")
    case True
    with sel valid_sql have "keys = []"
      by (simp add: SelectCandidatesForPerSiteEviction_def gsz
          GetDictionaryCountPerSite_def S_def [symmetric] uT)
    with True show ?thesis by (auto simp: S_def [symmetric] T_def)
  next
    case False
    define trc where "trc = (if int (length S) > uint mc then int (length S) - uint mc else 0)"
    define trs :: u64 where "trs = (if ms \<noteq> 0 \<and> T > uint ms then word_of_int T - ms else 0)"
    define sorted where "sorted = order_by_last_used_time S"
    from sel valid_sql False have loop:
      "per_site_loop env trs trc sorted ([], [], 0) = Inr (keys, toks, cand)"
      by (simp add: SelectCandidatesForPerSiteEviction_def gsz
          GetDictionaryCountPerSite_def S_def [symmetric] uT Let_def trc_def trs_def sorted_def)
    have set_sorted: "set sorted = set S" and len_sorted: "length sorted = length S"
      and dist_sorted: "distinct sorted"
      using distS by (simp_all add: sorted_def order_by_last_used_time_def distinct_map)
    have "valid_rows env sorted = sorted"
      using valid by (intro valid_rows_all) (simp add: set_sorted S_def)
    with per_site_loop_char [OF loop] obtain n where n:
      "n \<le> length sorted"
      "keys = map id_col (take n sorted)"
      "sint cand = (\<Sum>r\<leftarrow>take n sorted. row_size r)"
      "n = length sorted \<or> (sint trs \<le> sint cand \<and> trc \<le> int n)"
      by auto
    define vs where "vs = take n sorted"
    have vs: "set vs \<subseteq> set S" "distinct vs" "length vs = n"
      using n(1) dist_sorted set_sorted by (auto simp: vs_def dest: in_set_takeD)
    have len: "int (length (filter (\<lambda>r. id_col r \<notin> set keys) S)) = int (length S) - int n"
      using length_remove_by_id [OF distS vs(1,2)] vs(3) n(2) by (simp add: vs_def)
    have sum: "(\<Sum>r\<leftarrow>filter (\<lambda>r. id_col r \<notin> set keys) S. row_size r) = T - (\<Sum>r\<leftarrow>vs. row_size r)"
      using sum_list_remove_by_id [OF distS vs(1,2), of row_size] n(2) by (simp add: vs_def T_def)
    show ?thesis
    proof (cases "n = length sorted")
      case True
      then have "vs = sorted" by (simp add: vs_def)
      then have "(\<Sum>r\<leftarrow>vs. row_size r) = T"
        by (simp add: sorted_def order_by_last_used_time_def sum_list_sort_key T_def)
      with len sum True len_sorted show ?thesis
        by (simp add: S_def [symmetric])
    next
      case False
      with n(4) have stop: "sint trs \<le> sint cand" "trc \<le> int n" by simp_all
      from stop(2) have c: "int (length S) - int n \<le> uint mc"
        by (simp add: trc_def split: if_splits)
      have "ms \<noteq> 0 \<Longrightarrow> T - (\<Sum>r\<leftarrow>vs. row_size r) \<le> uint ms"
      proof (cases "T > uint ms")
        case True
        assume "ms \<noteq> 0"
        with True have trs: "trs = word_of_int T - ms" by (simp add: trs_def)
        have "uint (word_of_int T - ms :: u64) = T - uint ms"
          using True uT by (simp add: uint_sub_lem [THEN iffD1])
        moreover have "T - uint ms < 2 ^ 63" using T uint_ge_0 [of ms] by linarith
        ultimately have "sint trs = T - uint ms"
          using sint_eq_uint_small [of trs] trs by simp
        with stop(1) n(3) show ?thesis by (simp add: vs_def)
      next
        case False
        have "0 \<le> (\<Sum>r\<leftarrow>vs. row_size r)" by simp
        with False show ?thesis by linarith
      qed
      with c len sum show ?thesis by (simp add: S_def [symmetric])
    qed
  qed
qed


lemma sum_row_size_filter_le: "(\<Sum>r\<leftarrow>filter P rs. row_size r) \<le> (\<Sum>r\<leftarrow>rs. row_size r)"
  by (induction rs) (simp_all add: add_increasing)

lemma inserted_rows:
  "dictionaries (insert_or_replace k info (begin_transaction (DoCommit env st)))
     = filter (\<lambda>r. \<not> same_identity k (info_host info) (info_match info) r)
         (map (\<lambda>r. r\<lparr>last_used_time := committed_time env st r\<rparr>) (dictionaries st))
       @ [new_row k info (last_row_id st + 1)]"
  by (simp add: insert_or_replace_def DoCommit_rows)

lemma inserted_distinct:
  assumes "table_ok st"
  shows "distinct (map id_col
           (dictionaries (insert_or_replace k info (begin_transaction (DoCommit env st)))))"
proof -
  let ?rows1 = "map (\<lambda>r. r\<lparr>last_used_time := committed_time env st r\<rparr>) (dictionaries st)"
  have ids: "map id_col ?rows1 = map id_col (dictionaries st)" by simp
  from assms have d: "distinct (map id_col ?rows1)" and
    le: "\<forall>r\<in>set ?rows1. id_col r \<le> last_row_id st"
    unfolding table_ok_def ids by auto
  have "distinct (map id_col (filter (\<lambda>r. \<not> same_identity k (info_host info) (info_match info) r) ?rows1))"
    using d by (rule distinct_map_filter)
  moreover have "id_col (new_row k info (last_row_id st + 1)) \<notin>
      id_col ` set (filter (\<lambda>r. \<not> same_identity k (info_host info) (info_match info) r) ?rows1)"
    using le by (auto simp: new_row_def)
  ultimately show ?thesis
    unfolding inserted_rows by simp
qed

lemma inserted_site_rows:
  "site_rows (key_top_frame_site k)
     (insert_or_replace k info (begin_transaction (DoCommit env st)))
   = filter (\<lambda>r. \<not> same_identity k (info_host info) (info_match info) r)
       (map (\<lambda>r. r\<lparr>last_used_time := committed_time env st r\<rparr>)
          (site_rows (key_top_frame_site k) st))
     @ [new_row k info (last_row_id st + 1)]"
  unfolding site_rows_def inserted_rows
  by (simp add: filter_map comp_def new_row_def) (metis (mono_tags, lifting) filter_cong)


lemma row_size_last_used_time: "row_size (r\<lparr>last_used_time := t\<rparr>) = row_size r"
  by (simp add: row_size_def)

lemma row_size_new_row: "row_size (new_row k info i) = uint (info_size info)"
  by (simp add: row_size_def new_row_def)

text \<open>
  Claim C3, as amended. Let a call of \<^verbatim>\<open>RegisterDictionaryImpl\<close> return successfully, on a
  table that satisfies its primary key, where every row of the new dictionary's site and
  the new dictionary itself carry a token that deserializes, and where the sizes of that
  site's rows together with the new size stay below \<open>2^63\<close>. Then afterwards the site has
  at most \<^verbatim>\<open>max_count_per_site\<close> rows and, when \<^verbatim>\<open>max_size_per_site\<close> is not 0, their sizes
  add up to at most \<^verbatim>\<open>max_size_per_site\<close>.
\<close>

theorem register_keeps_site_within_limits:
  assumes ok: "RegisterDictionaryImpl env k info max_size_per_site max_count_per_site st
                 = (Inr res, st')"
    and table: "table_ok st"
    and old_tokens: "\<forall>r\<in>set (site_rows (key_top_frame_site k) st). has_valid_token env r"
    and new_token: "ToUnguessableToken env (info_token_high info) (info_token_low info) \<noteq> None"
    and small: "(\<Sum>r\<leftarrow>site_rows (key_top_frame_site k) st. row_size r) + uint (info_size info)
                  < 2 ^ 63"
  shows "int (length (site_rows (key_top_frame_site k) st')) \<le> uint max_count_per_site \<and>
         (max_size_per_site \<noteq> 0 \<longrightarrow>
            (\<Sum>r\<leftarrow>site_rows (key_top_frame_site k) st'. row_size r) \<le> uint max_size_per_site)"
proof -
  define site where "site = key_top_frame_site k"
  define st2 where "st2 = insert_or_replace k info (begin_transaction (DoCommit env st))"
  from Register_success [OF ok] obtain keys toks cand where
    sel: "SelectCandidatesForPerSiteEviction env site max_size_per_site max_count_per_site st2
            = Inr (keys, toks, cand)"
    and rows: "dictionaries st' = filter (\<lambda>r. id_col r \<notin> set keys) (dictionaries st2)"
    unfolding site_def st2_def by blast
  have dist: "distinct (map id_col (dictionaries st2))"
    unfolding st2_def using table by (rule inserted_distinct)
  have S2: "site_rows site st2
      = filter (\<lambda>r. \<not> same_identity k (info_host info) (info_match info) r)
          (map (\<lambda>r. r\<lparr>last_used_time := committed_time env st r\<rparr>) (site_rows site st))
        @ [new_row k info (last_row_id st + 1)]"
    unfolding site_def st2_def by (rule inserted_site_rows)
  have valid: "\<forall>r\<in>set (site_rows site st2). has_valid_token env r"
    using old_tokens [folded site_def] new_token
    by (auto simp: S2 has_valid_token_def new_row_def)
  let ?M = "map (\<lambda>r. r\<lparr>last_used_time := committed_time env st r\<rparr>) (site_rows site st)"
  let ?P = "\<lambda>r. \<not> same_identity k (info_host info) (info_match info) r"
  have a: "(\<Sum>r\<leftarrow>site_rows site st2. row_size r)
             = (\<Sum>r\<leftarrow>filter ?P ?M. row_size r) + uint (info_size info)"
    by (simp add: S2 row_size_new_row)
  have b: "(\<Sum>r\<leftarrow>filter ?P ?M. row_size r) \<le> (\<Sum>r\<leftarrow>?M. row_size r)"
    by (rule sum_row_size_filter_le)
  have c: "(\<Sum>r\<leftarrow>?M. row_size r) = (\<Sum>r\<leftarrow>site_rows site st. row_size r)"
    by (simp add: comp_def row_size_last_used_time)
  from a b c small have small2: "(\<Sum>r\<leftarrow>site_rows site st2. row_size r) < 2 ^ 63"
    unfolding site_def by linarith
  have "site_rows site st' = filter (\<lambda>r. id_col r \<notin> set keys) (site_rows site st2)"
    unfolding site_rows_def rows by (simp add: conj_commute)
  with per_site_selection_limits [OF sel dist valid small2] show ?thesis
    by (simp add: site_def)
qed


lemma sum_list_filter_split:
  fixes f :: "'b \<Rightarrow> 'a::comm_monoid_add"
  shows "(\<Sum>r\<leftarrow>filter P xs. f r) + (\<Sum>r\<leftarrow>filter (\<lambda>r. \<not> P r) xs. f r) = (\<Sum>r\<leftarrow>xs. f r)"
  by (induction xs) (simp_all add: ac_simps)



lemma SelectCandidates_victims:
  assumes "SelectCandidatesForPerSiteEviction env site ms mc st = Inr (keys, toks, cand)"
  shows "\<exists>n. keys = map id_col (take n (valid_rows env (order_by_last_used_time (site_rows site st)))) \<and>
             toks = take n (row_tokens env (order_by_last_used_time (site_rows site st))) \<and>
             cand = (\<Sum>r\<leftarrow>take n (valid_rows env (order_by_last_used_time (site_rows site st))). size_col r)"
proof (cases "keys = [] \<and> toks = [] \<and> cand = 0")
  case True
  then show ?thesis by (intro exI [of _ 0]) simp
next
  case False
  with assms obtain trs trc where
    "per_site_loop env trs trc (order_by_last_used_time (site_rows site st)) ([], [], 0)
       = Inr (keys, toks, cand)"
    by (auto simp: SelectCandidatesForPerSiteEviction_def Let_def split: sum.splits if_splits)
  from per_site_loop_char [OF this] show ?thesis by auto
qed

lemma victims_in_table:
  "set (take n (valid_rows env (order_by_last_used_time (site_rows site st)))) \<subseteq> set (dictionaries st)"
  by (auto simp: valid_rows_def order_by_last_used_time_def site_rows_def dest: in_set_takeD)

lemma victims_distinct:
  assumes "distinct (map id_col (dictionaries st))"
  shows "distinct (take n (valid_rows env (order_by_last_used_time (site_rows site st))))"
proof -
  from assms have "distinct (dictionaries st)" by (simp add: distinct_map)
  then show ?thesis
    by (simp add: valid_rows_def order_by_last_used_time_def site_rows_def)
qed







lemmas store_eval =
  RegisterDictionaryImpl_def begin_transaction_def DoCommit_def
  GetExistingDictionarySizeAndDiskCacheKeyToken_def compute_size_delta_def same_identity_def
  order_by_id_def order_by_last_used_time_def insert_or_replace_def new_row_def
  UpdateTotalDictionarySizeInMetaTable_def GetTotalDictionarySizeImpl_def
  GetTotalDictionaryCount_def MaybeEvictDictionariesForPerSiteLimit_def
  SelectCandidatesForPerSiteEviction_def GetDictionarySizePerSite_def
  GetDictionaryCountPerSite_def site_rows_def DeleteDictionaryByPrimaryKey_def
  ToUnguessableToken_def checked_u64_add_int64_def checked_i64_add_size_def
  checked_u64_sub_size_def in_uint64_def in_int64_def sqlite_sum_def sum_step_def
  good_env_def example_db_def example_key_def example_info_def


theorem register_keeps_site_within_limits_witness:
  "int (length (site_rows (key_top_frame_site example_key)
          (snd (RegisterDictionaryImpl good_env example_key (example_info ''/c*'' 300 30 3)
                  400 10 example_db)))) \<le> uint (10 :: u64) \<and>
   (\<Sum>r\<leftarrow>site_rows (key_top_frame_site example_key)
          (snd (RegisterDictionaryImpl good_env example_key (example_info ''/c*'' 300 30 3)
                  400 10 example_db)). row_size r) \<le> uint (400 :: u64)"
proof -
  have run:
    "RegisterDictionaryImpl good_env example_key (example_info ''/c*'' 300 30 3) 400 10 example_db
       = (Inr \<lparr> primary_key_in_database = 3, replaced_disk_cache_key_token = None,
                evicted_disk_cache_key_tokens = {(1, 1), (2, 2)}, total_dictionary_size = 300,
                total_dictionary_count = 1 \<rparr>,
          \<lparr> dictionaries = [new_row example_key (example_info ''/c*'' 300 30 3) 3],
             total_dict_size = 300, last_row_id = 3,
             pending_last_used_time_updates = [], begin_count = 1 \<rparr>)"
    by (simp add: store_eval Let_def)
  have table: "table_ok example_db"
    by (simp add: table_ok_def example_db_def new_row_def)
  have old_tokens:
    "\<forall>r\<in>set (site_rows (key_top_frame_site example_key) example_db). has_valid_token good_env r"
    by (simp add: has_valid_token_def store_eval)
  have new_token:
    "ToUnguessableToken good_env (info_token_high (example_info ''/c*'' 300 30 3))
       (info_token_low (example_info ''/c*'' 300 30 3)) \<noteq> None"
    by (simp add: store_eval)
  have small:
    "(\<Sum>r\<leftarrow>site_rows (key_top_frame_site example_key) example_db. row_size r)
       + uint (info_size (example_info ''/c*'' 300 30 3)) < 2 ^ 63"
    by (simp add: row_size_def store_eval)
  from register_keeps_site_within_limits [OF run table old_tokens new_token small]
  show ?thesis by (simp add: run)
qed

text \<open>
  The claim as it was stated fails on a table with rows whose token does not deserialize:
  the scan skips them, so they are never evicted. Here the site has two such rows and
  \<^verbatim>\<open>max_count_per_site\<close> is 1; the call succeeds, evicts the dictionary it has just
  inserted, and leaves the site with two rows.
\<close>

theorem register_keeps_site_within_limits_counterexample:
  "fst (RegisterDictionaryImpl good_env example_key (example_info ''/c*'' 400 30 3) 0 1
          null_token_db)
     = Inr \<lparr> primary_key_in_database = 3, replaced_disk_cache_key_token = None,
             evicted_disk_cache_key_tokens = {(3, 3)}, total_dictionary_size = 300,
             total_dictionary_count = 2 \<rparr> \<and>
   \<not> int (length (site_rows (key_top_frame_site example_key)
            (snd (RegisterDictionaryImpl good_env example_key (example_info ''/c*'' 400 30 3)
                    0 1 null_token_db)))) \<le> uint (1 :: u64)"
  by (simp add: store_eval null_token_db_def Let_def)



section \<open>The counter and the sum of the sizes\<close>

lemma rows_ok_filter: "rows_ok l rs \<Longrightarrow> rows_ok l (filter P rs)"
  by (auto simp: rows_ok_def distinct_map_filter)

lemma identity_of_last_used [simp]: "identity_of (r\<lparr>last_used_time := t\<rparr>) = identity_of r"
  by (simp add: identity_of_def)

lemma rows_ok_last_used:
  "rows_ok l rs \<Longrightarrow> rows_ok l (map (\<lambda>r. r\<lparr>last_used_time := f r\<rparr>) rs)"
  by (auto simp: rows_ok_def comp_def)

lemma word_sum_last_used:
  "word_sum_of_sizes (map (\<lambda>r. r\<lparr>last_used_time := f r\<rparr>) rs) = word_sum_of_sizes rs"
  by (simp add: word_sum_of_sizes_def comp_def)

lemma store_inv_DoCommit: "store_inv st \<Longrightarrow> store_inv (DoCommit env st)"
  by (simp add: store_inv_def DoCommit_rows rows_ok_last_used word_sum_last_used)

lemma store_inv_begin [simp]: "store_inv (begin_transaction st) = store_inv st"
  by (simp add: store_inv_def)

lemma store_inv_pending [simp]:
  "store_inv (st\<lparr>pending_last_used_time_updates := p\<rparr>) = store_inv st"
  by (simp add: store_inv_def)

lemma word_sum_filter_split:
  "word_sum_of_sizes (filter P rs) + word_sum_of_sizes (filter (\<lambda>r. \<not> P r) rs)
     = word_sum_of_sizes rs"
  unfolding word_sum_of_sizes_def by (rule sum_list_filter_split)

lemma word_sum_remove_by_id:
  assumes "rows_ok l xs" and "set vs \<subseteq> set xs" and "distinct vs"
  shows "word_sum_of_sizes (filter (\<lambda>r. id_col r \<notin> set (map id_col vs)) xs)
           = word_sum_of_sizes xs - word_sum_of_sizes vs"
  unfolding word_sum_of_sizes_def
  using assms by (intro sum_list_remove_by_id) (simp_all add: rows_ok_def)

lemma word_of_int_sum_row_size:
  "(word_of_int (\<Sum>r\<leftarrow>rs. row_size r) :: u64) = word_sum_of_sizes rs"
  by (induction rs) (simp_all add: word_sum_of_sizes_def row_size_def)

lemma foldl_checked_i64:
  "foldl checked_i64_add_size c xs = Some t \<Longrightarrow> \<exists>t0. c = Some t0 \<and> t = t0 + sum_list xs"
proof (induction xs arbitrary: c)
  case Nil
  then show ?case by simp
next
  case (Cons a xs)
  from Cons.prems have "foldl checked_i64_add_size (checked_i64_add_size c a) xs = Some t"
    by simp
  from Cons.IH [OF this] obtain t1 where
    "checked_i64_add_size c a = Some t1" "t = t1 + sum_list xs" by blast
  then show ?case
    by (auto simp: checked_i64_add_size_def add.assoc split: option.splits if_splits)
qed

lemma foldl_checked_u64:
  "foldl checked_u64_add_size c xs = Some t \<Longrightarrow> \<exists>t0. c = Some t0 \<and> t = t0 + sum_list xs"
proof (induction xs arbitrary: c)
  case Nil
  then show ?case by simp
next
  case (Cons a xs)
  from Cons.prems have "foldl checked_u64_add_size (checked_u64_add_size c a) xs = Some t"
    by simp
  from Cons.IH [OF this] obtain t1 where
    "checked_u64_add_size c a = Some t1" "t = t1 + sum_list xs" by blast
  then show ?case
    by (auto simp: checked_u64_add_size_def add.assoc split: option.splits if_splits)
qed

lemma matching_loop_char:
  "matching_loop env keep rs (keys, toks, c) = (keys', toks', c') \<Longrightarrow>
   keys' = keys @ map id_col (filter (\<lambda>r. keep r \<and> has_valid_token env r) rs) \<and>
   (\<forall>t. c' = Some t \<longrightarrow>
      (\<exists>t0. c = Some t0 \<and>
         t = t0 + word_sum_of_sizes (filter (\<lambda>r. keep r \<and> has_valid_token env r) rs)))"
proof (induction rs arbitrary: keys toks c)
  case Nil
  then show ?case by (simp add: word_sum_of_sizes_def)
next
  case (Cons r rs)
  show ?case
  proof (cases "keep r \<and> has_valid_token env r")
    case False
    with Cons.prems have "matching_loop env keep rs (keys, toks, c) = (keys', toks', c')"
      by (auto simp: has_valid_token_def split: option.splits)
    from Cons.IH [OF this] False show ?thesis by simp
  next
    case True
    then obtain tk where tk: "ToUnguessableToken env (token_high r) (token_low r) = Some tk"
      by (auto simp: has_valid_token_def)
    with Cons.prems True have
      "matching_loop env keep rs (keys @ [id_col r], toks @ [tk],
          checked_i64_add_size c (size_col r)) = (keys', toks', c')"
      by simp
    from Cons.IH [OF this] True show ?thesis
      by (auto simp: word_sum_of_sizes_def checked_i64_add_size_def
          split: option.splits if_splits)
  qed
qed


lemma store_inv_delete_victims:
  assumes "store_inv st" and "set vs \<subseteq> set (dictionaries st)" and "distinct vs"
  shows "store_inv (st\<lparr>dictionaries :=
                        filter (\<lambda>r. id_col r \<notin> set (map id_col vs)) (dictionaries st),
                      total_dict_size := total_dict_size st - word_sum_of_sizes vs\<rparr>)"
  using assms word_sum_remove_by_id [of "last_row_id st" "dictionaries st" vs]
  by (simp add: store_inv_def rows_ok_filter)

lemma subtract_from_total_char:
  assumes "subtract_from_total env t st = Inr st'"
  shows "st' = st\<lparr>total_dict_size := total_dict_size st - t\<rparr>"
proof (cases "t = 0")
  case True
  with assms show ?thesis by (simp add: subtract_from_total_def)
next
  case False
  with assms obtain x where "UpdateTotalDictionarySizeInMetaTable env (- t) st = Inr (x, st')"
    by (auto simp: subtract_from_total_def split: sum.splits)
  from UpdateTotal_char [OF this] show ?thesis by simp
qed

lemma SelectEviction_word:
  assumes "SelectEvictionCandidates env a b c d st = Inr (keys, toks, out)"
  shows "\<exists>n. keys = map id_col (take n (valid_rows env (order_by_last_used_time (dictionaries st)))) \<and>
             (keys \<noteq> [] \<longrightarrow>
                out = total_dict_size st
                  - word_sum_of_sizes
                      (take n (valid_rows env (order_by_last_used_time (dictionaries st)))))"
proof (cases "keys = []")
  case True
  then show ?thesis by (intro exI [of _ 0]) simp
next
  case False
  with assms obtain trc tot' where
    loop: "eviction_loop env a b trc (order_by_last_used_time (dictionaries st))
             ([], [], total_dict_size st, 0) = Inr (keys, toks, tot', out)"
    by (auto simp: SelectEvictionCandidates_def GetTotalDictionarySizeImpl_def Let_def
        split: sum.splits if_splits prod.splits)
  let ?V = "valid_rows env (order_by_last_used_time (dictionaries st))"
  from eviction_loop_char [OF loop] obtain n where n:
    "keys = map id_col (take n ?V)"
    "uint tot' = uint (total_dict_size st) - (\<Sum>r\<leftarrow>take n ?V. row_size r)"
    "?V \<noteq> [] \<longrightarrow> out = tot'"
    by auto
  from n(1) False have "?V \<noteq> []" by auto
  with n(3) have "out = tot'" by simp
  moreover have "tot' = word_of_int (uint (total_dict_size st) - (\<Sum>r\<leftarrow>take n ?V. row_size r))"
    using n(2) by (metis word_of_int_uint)
  ultimately have "out = total_dict_size st - word_sum_of_sizes (take n ?V)"
    by (simp add: word_of_int_sum_row_size)
  with n(1) show ?thesis by blast
qed

lemma store_inv_ProcessEviction:
  assumes "store_inv st"
  shows "store_inv (snd (ProcessEvictionImpl env a b c d st))"
proof -
  define st1 where "st1 = begin_transaction (DoCommit env st)"
  have inv1: "store_inv st1" using assms by (simp add: st1_def store_inv_DoCommit)
  show ?thesis
  proof (cases "snd (ProcessEvictionImpl env a b c d st) = st \<or>
                snd (ProcessEvictionImpl env a b c d st) = st1")
    case True
    with assms inv1 show ?thesis by auto
  next
    case False
    then obtain keys toks out st2 where
      sel: "SelectEvictionCandidates env a b c d st1 = Inr (keys, toks, out)" and
      ne: "keys \<noteq> []" and
      del: "delete_primary_keys env keys st1 = Inr st2" and
      fin: "snd (ProcessEvictionImpl env a b c d st) = st2\<lparr>total_dict_size := out\<rparr>"
      unfolding ProcessEvictionImpl_def Let_def st1_def [symmetric]
      by (auto split: if_splits sum.splits prod.splits)
    let ?V = "valid_rows env (order_by_last_used_time (dictionaries st1))"
    from SelectEviction_word [OF sel] ne obtain n where
      keys: "keys = map id_col (take n ?V)" and
      out: "out = total_dict_size st1 - word_sum_of_sizes (take n ?V)"
      by blast
    have sub: "set (take n ?V) \<subseteq> set (dictionaries st1)"
      by (auto simp: valid_rows_def order_by_last_used_time_def dest: in_set_takeD)
    have "distinct (dictionaries st1)"
      using inv1 by (simp add: store_inv_def rows_ok_def distinct_map)
    then have dis: "distinct (take n ?V)"
      by (simp add: valid_rows_def order_by_last_used_time_def)
    from store_inv_delete_victims [OF inv1 sub dis] delete_primary_keys_char [OF del] keys out fin
    show ?thesis by simp
  qed
qed


lemma store_inv_ClearAll:
  assumes "store_inv st"
  shows "store_inv (snd (ClearAllDictionariesImpl env st))"
  using assms
  by (auto simp: ClearAllDictionariesImpl_def Let_def store_inv_def rows_ok_def
      word_sum_of_sizes_def begin_transaction_def)

lemma store_inv_DeleteExpired:
  assumes "store_inv st"
  shows "store_inv (snd (DeleteExpiredDictionariesImpl env now st))"
proof -
  define st1 where "st1 = begin_transaction st"
  have inv1: "store_inv st1" using assms by (simp add: st1_def)
  show ?thesis
  proof (cases "snd (DeleteExpiredDictionariesImpl env now st) = st \<or>
                snd (DeleteExpiredDictionariesImpl env now st) = st1")
    case True
    with assms inv1 show ?thesis by auto
  next
    case False
    let ?P = "\<lambda>r. exp_time r \<le> now"
    from False obtain t st3 where
      sum: "foldl checked_i64_add_size (Some 0) (map size_col (filter ?P (dictionaries st1))) = Some t"
      and sub: "subtract_from_total env t
                  (st1\<lparr>dictionaries := filter (\<lambda>r. \<not> ?P r) (dictionaries st1)\<rparr>) = Inr st3"
      and fin: "snd (DeleteExpiredDictionariesImpl env now st) = st3"
      unfolding DeleteExpiredDictionariesImpl_def Let_def st1_def [symmetric]
      by (auto split: if_splits sum.splits option.splits)
    from foldl_checked_i64 [OF sum] have t: "t = word_sum_of_sizes (filter ?P (dictionaries st1))"
      by (simp add: word_sum_of_sizes_def)
    from word_sum_filter_split [of ?P "dictionaries st1"] inv1
    have "total_dict_size st1 - t = word_sum_of_sizes (filter (\<lambda>r. \<not> ?P r) (dictionaries st1))"
      by (simp add: t store_inv_def algebra_simps)
    with subtract_from_total_char [OF sub] fin inv1 show ?thesis
      by (simp add: store_inv_def rows_ok_filter)
  qed
qed

lemma select_matching_char:
  assumes "select_matching env keep s e st = Inr (keys, toks, t)"
  shows "\<exists>vs. set vs \<subseteq> set (dictionaries st) \<and>
              (distinct (dictionaries st) \<longrightarrow> distinct vs) \<and>
              keys = map id_col vs \<and> t = word_sum_of_sizes vs"
proof -
  let ?rs = "order_by_id (filter (in_time_range s e) (dictionaries st))"
  let ?vs = "filter (\<lambda>r. keep r \<and> has_valid_token env r) ?rs"
  from assms have
    "matching_loop env keep ?rs ([], [], Some 0) = (keys, toks, Some t)"
    by (auto simp: select_matching_def split: if_splits prod.splits option.splits)
  from matching_loop_char [OF this] have "keys = map id_col ?vs" "t = word_sum_of_sizes ?vs"
    by simp_all
  moreover have "set ?vs \<subseteq> set (dictionaries st)"
    by (auto simp: order_by_id_def)
  moreover have "distinct (dictionaries st) \<longrightarrow> distinct ?vs"
    by (simp add: order_by_id_def)
  ultimately show ?thesis by blast
qed

lemma store_inv_ClearDictionaries:
  assumes "store_inv st"
  shows "store_inv (snd (ClearDictionariesImpl env s e m st))"
proof -
  define st1 where "st1 = begin_transaction (DoCommit env st)"
  have inv1: "store_inv st1" using assms by (simp add: st1_def store_inv_DoCommit)
  show ?thesis
  proof (cases "snd (ClearDictionariesImpl env s e m st) = st \<or>
                snd (ClearDictionariesImpl env s e m st) = st1")
    case True
    with assms inv1 show ?thesis by auto
  next
    case False
    then obtain keep keys toks t st2 st3 where
      sel: "select_matching env keep s e st1 = Inr (keys, toks, t)" and
      del: "delete_primary_keys env keys st1 = Inr st2" and
      sub: "subtract_from_total env t st2 = Inr st3" and
      fin: "snd (ClearDictionariesImpl env s e m st) = st3"
      unfolding ClearDictionariesImpl_def Let_def st1_def [symmetric]
        SelectMatchingDictionaries_def SelectMatchingDictionariesWithUrlMatcher_def
      by (auto split: if_splits sum.splits prod.splits option.splits)
    have "distinct (dictionaries st1)"
      using inv1 by (simp add: store_inv_def rows_ok_def distinct_map)
    with select_matching_char [OF sel] obtain vs where
      vs: "set vs \<subseteq> set (dictionaries st1)" "distinct vs" and
      keys: "keys = map id_col vs" and t: "t = word_sum_of_sizes vs"
      by blast
    from store_inv_delete_victims [OF inv1 vs] delete_primary_keys_char [OF del]
      subtract_from_total_char [OF sub] keys t fin
    show ?thesis by simp
  qed
qed


lemma store_inv_cong:
  assumes "dictionaries a = dictionaries b" and "total_dict_size a = total_dict_size b"
    and "last_row_id a = last_row_id b"
  shows "store_inv a = store_inv b"
  using assms by (simp add: store_inv_def)

lemma DeleteByToken_char:
  assumes "DeleteDictionaryByDiskCacheToken env tk st = Inr (sz, st')"
  shows "\<exists>P. st' = st\<lparr>dictionaries := filter (\<lambda>r. \<not> P r) (dictionaries st)\<rparr> \<and>
             sz = word_sum_of_sizes (filter P (dictionaries st))"
proof -
  let ?hit = "\<lambda>r. token_high r = fst tk \<and> token_low r = snd tk"
  from assms have
    sum: "foldl checked_u64_add_size (Some 0) (map size_col (filter ?hit (dictionaries st))) = Some sz"
    and st': "st' = st\<lparr>dictionaries := filter (\<lambda>r. \<not> ?hit r) (dictionaries st)\<rparr>"
    by (auto simp: DeleteDictionaryByDiskCacheToken_def Let_def split: if_splits option.splits)
  from foldl_checked_u64 [OF sum] have "sz = word_sum_of_sizes (filter ?hit (dictionaries st))"
    by (simp add: word_sum_of_sizes_def)
  with st' show ?thesis by (intro exI [of _ ?hit]) simp
qed

lemma delete_tokens_loop_char:
  assumes "delete_tokens_loop env ts (c, st) = Inr (c', st')"
    and "rows_ok l (dictionaries st)"
  shows "rows_ok l (dictionaries st') \<and> last_row_id st' = last_row_id st \<and>
         total_dict_size st' = total_dict_size st \<and>
         (\<exists>d. word_sum_of_sizes (dictionaries st') = word_sum_of_sizes (dictionaries st) - d \<and>
              (\<forall>t. c' = Some t \<longrightarrow> (\<exists>t0. c = Some t0 \<and> t = t0 + d)))"
  using assms
proof (induction ts arbitrary: c st)
  case Nil
  then show ?case by (auto intro: exI [of _ 0])
next
  case (Cons tk ts)
  from Cons.prems(1) obtain sz st1 where
    one: "DeleteDictionaryByDiskCacheToken env tk st = Inr (sz, st1)" and
    rest: "delete_tokens_loop env ts (checked_i64_add_size c sz, st1) = Inr (c', st')"
    by (auto split: sum.splits)
  from DeleteByToken_char [OF one] obtain P where
    st1: "st1 = st\<lparr>dictionaries := filter (\<lambda>r. \<not> P r) (dictionaries st)\<rparr>" and
    sz: "sz = word_sum_of_sizes (filter P (dictionaries st))"
    by blast
  have ok1: "rows_ok l (dictionaries st1)"
    using Cons.prems(2) by (simp add: st1 rows_ok_filter)
  have sum1: "word_sum_of_sizes (dictionaries st1) = word_sum_of_sizes (dictionaries st) - sz"
    using word_sum_filter_split [of P "dictionaries st"] by (simp add: st1 sz algebra_simps)
  from Cons.IH [OF rest ok1] obtain d where
    a: "rows_ok l (dictionaries st')" "last_row_id st' = last_row_id st1"
       "total_dict_size st' = total_dict_size st1" and
    d: "word_sum_of_sizes (dictionaries st') = word_sum_of_sizes (dictionaries st1) - d" and
    c: "\<forall>t. c' = Some t \<longrightarrow> (\<exists>t0. checked_i64_add_size c sz = Some t0 \<and> t = t0 + d)"
    by blast
  have c2: "\<forall>t. c' = Some t \<longrightarrow> (\<exists>t0. c = Some t0 \<and> t = t0 + (sz + d))"
    using c by (auto simp: checked_i64_add_size_def add.assoc split: option.splits if_splits)
  have d2: "word_sum_of_sizes (dictionaries st') = word_sum_of_sizes (dictionaries st) - (sz + d)"
    using d sum1 by (simp add: algebra_simps)
  have "\<exists>d. word_sum_of_sizes (dictionaries st') = word_sum_of_sizes (dictionaries st) - d \<and>
              (\<forall>t. c' = Some t \<longrightarrow> (\<exists>t0. c = Some t0 \<and> t = t0 + d))"
    using c2 d2 by (intro exI [of _ "sz + d"] conjI)
  with a show ?case by (simp add: st1)
qed

lemma store_inv_DeleteByTokens:
  assumes "store_inv st"
  shows "store_inv (snd (DeleteDictionariesByDiskCacheKeyTokensImpl env ts st))"
proof -
  define st1 where "st1 = begin_transaction st"
  have inv1: "store_inv st1" using assms by (simp add: st1_def)
  show ?thesis
  proof (cases "snd (DeleteDictionariesByDiskCacheKeyTokensImpl env ts st) = st \<or>
                snd (DeleteDictionariesByDiskCacheKeyTokensImpl env ts st) = st1")
    case True
    with assms inv1 show ?thesis by auto
  next
    case False
    then obtain t st2 st3 where
      loop: "delete_tokens_loop env ts (Some 0, st1) = Inr (Some t, st2)" and
      sub: "subtract_from_total env t st2 = Inr st3" and
      fin: "snd (DeleteDictionariesByDiskCacheKeyTokensImpl env ts st) = st3"
      unfolding DeleteDictionariesByDiskCacheKeyTokensImpl_def Let_def st1_def [symmetric]
      by (auto split: if_splits sum.splits prod.splits option.splits)
    have "rows_ok (last_row_id st1) (dictionaries st1)"
      using inv1 by (simp add: store_inv_def)
    from delete_tokens_loop_char [OF loop this] inv1
    have "store_inv (st2\<lparr>total_dict_size := total_dict_size st2 - t\<rparr>)"
      by (auto simp: store_inv_def)
    with subtract_from_total_char [OF sub] fin show ?thesis by simp
  qed
qed


lemma filter_unique:
  assumes "distinct (map g xs)"
  shows "filter (\<lambda>x. g x = v) xs = [] \<or> (\<exists>a. filter (\<lambda>x. g x = v) xs = [a])"
  using assms
proof (induction xs)
  case Nil
  then show ?case by simp
next
  case (Cons x xs)
  show ?case
  proof (cases "g x = v")
    case True
    with Cons.prems have "\<forall>y\<in>set xs. g y \<noteq> v" by (force simp: image_iff)
    then have "filter (\<lambda>x. g x = v) xs = []" by (simp add: filter_empty_conv)
    with True show ?thesis by simp
  next
    case False
    with Cons show ?thesis by simp
  qed
qed

lemma same_identity_iff:
  "same_identity k h m r \<longleftrightarrow>
     identity_of r = (key_frame_origin k, key_top_frame_site k, h, m)"
  by (auto simp: same_identity_def identity_of_def)

lemma store_inv_insert:
  assumes inv: "store_inv st" and sql: "sql_valid env"
  shows "store_inv ((insert_or_replace k info st)
           \<lparr>total_dict_size := total_dict_size st + compute_size_delta env k info st\<rparr>)"
proof -
  let ?same = "same_identity k (info_host info) (info_match info)"
  let ?rows = "dictionaries st"
  let ?new = "new_row k info (last_row_id st + 1)"
  let ?kept = "filter (\<lambda>r. \<not> ?same r) ?rows"
  from inv have ok: "rows_ok (last_row_id st) ?rows" and tot: "total_dict_size st = word_sum_of_sizes ?rows"
    by (simp_all add: store_inv_def)
  have kept_ok: "rows_ok (last_row_id st) ?kept" using ok by (rule rows_ok_filter)
  have "rows_ok (last_row_id st + 1) (?kept @ [?new])"
  proof -
    have "id_col ?new \<notin> id_col ` set ?kept"
      using ok by (auto simp: rows_ok_def new_row_def)
    moreover have "identity_of ?new \<notin> identity_of ` set ?kept"
      by (auto simp: same_identity_iff identity_of_def new_row_def)
    moreover have "\<forall>r\<in>set ?kept. id_col r \<le> last_row_id st + 1"
      using ok by (auto simp: rows_ok_def)
    moreover have "id_col ?new \<le> last_row_id st + 1" by (simp add: new_row_def)
    ultimately show ?thesis
      using kept_ok by (simp add: rows_ok_def)
  qed
  moreover have "total_dict_size st + compute_size_delta env k info st
                   = word_sum_of_sizes (?kept @ [?new])"
  proof -
    have split: "word_sum_of_sizes (filter ?same ?rows) + word_sum_of_sizes ?kept
                   = word_sum_of_sizes ?rows"
      by (rule word_sum_filter_split)
    have new: "word_sum_of_sizes (?kept @ [?new]) = word_sum_of_sizes ?kept + info_size info"
      by (simp add: word_sum_of_sizes_def new_row_def)
    from ok have "distinct (map identity_of ?rows)" by (simp add: rows_ok_def)
    from filter_unique [OF this, of "(key_frame_origin k, key_top_frame_site k, info_host info, info_match info)"]
    have "filter ?same ?rows = [] \<or> (\<exists>old. filter ?same ?rows = [old])"
      by (simp add: same_identity_iff [abs_def])
    then show ?thesis
    proof
      assume none: "filter ?same ?rows = []"
      then have "compute_size_delta env k info st = info_size info"
        by (simp add: compute_size_delta_def GetExistingDictionarySizeAndDiskCacheKeyToken_def
            order_by_id_def)
      with split none new tot show ?thesis
        by (simp add: word_sum_of_sizes_def)
    next
      assume "\<exists>old. filter ?same ?rows = [old]"
      then obtain old where old: "filter ?same ?rows = [old]" ..
      with sql have delta: "compute_size_delta env k info st = info_size info - size_col old"
        by (simp add: compute_size_delta_def GetExistingDictionarySizeAndDiskCacheKeyToken_def
            order_by_id_def)
      have S: "word_sum_of_sizes ?rows = size_col old + word_sum_of_sizes ?kept"
        using split old by (simp add: word_sum_of_sizes_def)
      show ?thesis
        unfolding tot S new delta by (simp add: algebra_simps)
    qed
  qed
  ultimately show ?thesis
    by (simp add: store_inv_def insert_or_replace_def)
qed

lemma store_inv_Register:
  assumes "store_inv st"
  shows "store_inv (snd (RegisterDictionaryImpl env k info ms mc st))"
proof -
  define st1 where "st1 = begin_transaction (DoCommit env st)"
  have inv1: "store_inv st1" using assms by (simp add: st1_def store_inv_DoCommit)
  show ?thesis
  proof (cases "snd (RegisterDictionaryImpl env k info ms mc st) = st \<or>
                snd (RegisterDictionaryImpl env k info ms mc st) = st1")
    case True
    with assms inv1 show ?thesis by auto
  next
    case False
    define st2 where "st2 = insert_or_replace k info st1"
    define delta where "delta = compute_size_delta env k info st1"
    from False obtain t st3 evicted t' st4 where
      sql: "sql_valid env" and
      upd: "UpdateTotalDictionarySizeInMetaTable env delta st2 = Inr (t, st3)" and
      ev: "MaybeEvictDictionariesForPerSiteLimit env (key_top_frame_site k) ms mc t st3
             = Inr (evicted, t', st4)" and
      fin: "snd (RegisterDictionaryImpl env k info ms mc st) = st4"
      unfolding RegisterDictionaryImpl_def Let_def st1_def [symmetric] st2_def [symmetric]
        delta_def [symmetric]
      by (auto split: if_splits sum.splits prod.splits)
    from UpdateTotal_char [OF upd]
    have st3: "st3 = st2\<lparr>total_dict_size := total_dict_size st1 + delta\<rparr>"
      by (simp add: st2_def insert_or_replace_def)
    have inv3: "store_inv st3"
      unfolding st3 st2_def delta_def using inv1 sql by (rule store_inv_insert)
    from MaybeEvict_char [OF ev] obtain keys cand where
      sel: "SelectCandidatesForPerSiteEviction env (key_top_frame_site k) ms mc st3
              = Inr (keys, evicted, cand)" and
      rows: "dictionaries st4 = filter (\<lambda>r. id_col r \<notin> set keys) (dictionaries st3)" and
      lid: "last_row_id st4 = last_row_id st3" and
      nil: "keys = [] \<longrightarrow> st4 = st3" and
      cons: "keys \<noteq> [] \<longrightarrow> total_dict_size st4 = total_dict_size st3 - cand"
      by blast
    show ?thesis
    proof (cases "keys = []")
      case True
      with nil inv3 fin show ?thesis by simp
    next
      case False
      from SelectCandidates_victims [OF sel] obtain n where
        keys: "keys = map id_col (take n (valid_rows env
                 (order_by_last_used_time (site_rows (key_top_frame_site k) st3))))" and
        cand: "cand = word_sum_of_sizes (take n (valid_rows env
                 (order_by_last_used_time (site_rows (key_top_frame_site k) st3))))"
        unfolding word_sum_of_sizes_def by blast
      let ?vs = "take n (valid_rows env
                 (order_by_last_used_time (site_rows (key_top_frame_site k) st3)))"
      have "distinct (map id_col (dictionaries st3))"
        using inv3 by (simp add: store_inv_def rows_ok_def)
      from store_inv_delete_victims [OF inv3 victims_in_table victims_distinct [OF this]]
      have "store_inv (st3\<lparr>dictionaries := filter (\<lambda>r. id_col r \<notin> set (map id_col ?vs)) (dictionaries st3),
                           total_dict_size := total_dict_size st3 - word_sum_of_sizes ?vs\<rparr>)" .
      moreover have "store_inv st4 =
          store_inv (st3\<lparr>dictionaries := filter (\<lambda>r. id_col r \<notin> set (map id_col ?vs)) (dictionaries st3),
                           total_dict_size := total_dict_size st3 - word_sum_of_sizes ?vs\<rparr>)"
        using rows lid cons False keys cand by (intro store_inv_cong) simp_all
      ultimately show ?thesis using fin by simp
    qed
  qed
qed

lemma store_inv_run_op: "store_inv st \<Longrightarrow> store_inv (run_op env op st)"
  by (cases op)
     (simp_all add: store_inv_Register store_inv_ClearDictionaries store_inv_DeleteExpired
        store_inv_ProcessEviction store_inv_DeleteByTokens store_inv_ClearAll
        store_inv_DoCommit UpdateDictionaryLastUsedTime_def)

lemma store_inv_run_ops: "store_inv st \<Longrightarrow> store_inv (run_ops ops st)"
  by (induction ops arbitrary: st) (auto simp: store_inv_run_op)

lemma store_inv_initial: "store_inv initial_db"
  by (simp add: store_inv_def initial_db_def rows_ok_def word_sum_of_sizes_def)

text \<open>
  Whatever operations run on a fresh database, in whatever order and with whatever failures
  of the SQL engine, the counter is the sum of the \<^verbatim>\<open>size\<close> column in 64-bit arithmetic.
\<close>

theorem running_total_is_sum_modulo:
  "total_dict_size (run_ops ops initial_db)
     = word_sum_of_sizes (dictionaries (run_ops ops initial_db))"
  using store_inv_run_ops [OF store_inv_initial, of ops] by (simp add: store_inv_def)


theorem running_total_is_sum_modulo_witness:
  "total_dict_size (run_ops overflow_ops initial_db)
     = word_sum_of_sizes (dictionaries (run_ops overflow_ops initial_db))"
  by (rule running_total_is_sum_modulo)

text \<open>
  Claim C2 does not hold of the code for the exact sum. \<^verbatim>\<open>RegisterDictionaryImpl\<close> turns
  the \<^verbatim>\<open>size_t\<close> size into the \<^verbatim>\<open>int64_t size_delta\<close> without a check, so a size of
  \<open>2^63\<close> is applied as \<open>- 2^63\<close>, and the checked addition accepts it when the counter is
  at least \<open>2^63\<close>. After the operations of \<open>overflow_ops\<close> the counter is 0 while the four
  rows left have \<open>2^62\<close> bytes each.
\<close>

theorem running_total_diverges:
  "RunningTotal (run_ops overflow_ops initial_db) = 0 \<and>
   sum_of_sizes (run_ops overflow_ops initial_db) = 2 ^ 64 \<and>
   map row_size (dictionaries (run_ops overflow_ops initial_db))
     = [2 ^ 62, 2 ^ 62, 2 ^ 62, 2 ^ 62]"
  by (simp add: overflow_ops_def initial_db_def store_eval ProcessEvictionImpl_def
      SelectEvictionCandidates_def RunningTotal_def sum_of_sizes_def row_size_def Let_def)

section \<open>Writers: what the operations leave alone\<close>

text \<open>
  The proofs about the writers follow a few members and a few views of the log through
  the operations: which callbacks were posted, which transactions were told that they are
  removed, which writes of response body and which truncations happened.
\<close>

lemma posted_append [simp]: "posted_callbacks (a @ b) = posted_callbacks a @ posted_callbacks b"
  by (simp add: posted_callbacks_def)
lemma removals_append [simp]: "removals (a @ b) = removals a @ removals b"
  by (simp add: removals_def)
lemma body_writes_append [simp]: "body_writes (a @ b) = body_writes a @ body_writes b"
  by (simp add: body_writes_def)
lemma truncations_append [simp]: "truncations (a @ b) = truncations a @ truncations b"
  by (simp add: truncations_def)

lemma projections_single [simp]:
  "posted_callbacks [e] = posted_of e"
  "removals [e] = removal_of e"
  "body_writes [e] = (if is_body_write e then [e] else [])"
  "truncations [e] = (if e = WriteData_response_info True then [e] else [])"
  by (simp_all add: posted_callbacks_def removals_def body_writes_def truncations_def)

lemma log_event_fields [simp]:
  "events (log_event e w) = events w @ [e]"
  "next_state (log_event e w) = next_state w"
  "all_writers (log_event e w) = all_writers w"
  "waiting_for_read (log_event e w) = waiting_for_read w"
  "active_transaction (log_event e w) = active_transaction w"
  "has_callback (log_event e w) = has_callback w"
  "cache_callback (log_event e w) = cache_callback w"
  "read_buf (log_event e w) = read_buf w"
  "io_buf_len (log_event e w) = io_buf_len w"
  "write_len (log_event e w) = write_len w"
  "network_read_only (log_event e w) = network_read_only w"
  "should_keep_entry (log_event e w) = should_keep_entry w"
  "is_exclusive (log_event e w) = is_exclusive w"
  "partial_do_not_truncate (log_event e w) = partial_do_not_truncate w"
  "parallel_writing_pattern (log_event e w) = parallel_writing_pattern w"
  "priority (log_event e w) = priority w"
  "network_transaction (log_event e w) = network_transaction w"
  "checksum (log_event e w) = checksum w"
  "response_info_truncation (log_event e w) = response_info_truncation w"
  by (simp_all add: log_event_def)

lemma UpdatePriority_fields [simp]:
  "next_state (UpdatePriority env w) = next_state w"
  "all_writers (UpdatePriority env w) = all_writers w"
  "waiting_for_read (UpdatePriority env w) = waiting_for_read w"
  "active_transaction (UpdatePriority env w) = active_transaction w"
  "has_callback (UpdatePriority env w) = has_callback w"
  "cache_callback (UpdatePriority env w) = cache_callback w"
  "read_buf (UpdatePriority env w) = read_buf w"
  "io_buf_len (UpdatePriority env w) = io_buf_len w"
  "write_len (UpdatePriority env w) = write_len w"
  "network_read_only (UpdatePriority env w) = network_read_only w"
  "should_keep_entry (UpdatePriority env w) = should_keep_entry w"
  "partial_do_not_truncate (UpdatePriority env w) = partial_do_not_truncate w"
  "checksum (UpdatePriority env w) = checksum w"
  "response_info_truncation (UpdatePriority env w) = response_info_truncation w"
  "posted_callbacks (events (UpdatePriority env w)) = posted_callbacks (events w)"
  "removals (events (UpdatePriority env w)) = removals (events w)"
  "body_writes (events (UpdatePriority env w)) = body_writes (events w)"
  "truncations (events (UpdatePriority env w)) = truncations (events w)"
  by (simp_all add: UpdatePriority_def Let_def)

lemma EraseTransaction_it_fields [simp]:
  "all_writers (EraseTransaction_it env t r w) = map_erase t (all_writers w)"
  "waiting_for_read (EraseTransaction_it env t r w) =
     (if active_transaction w = Some t then waiting_for_read w
      else map_erase t (waiting_for_read w))"
  "active_transaction (EraseTransaction_it env t r w) =
     (if active_transaction w = Some t then None else active_transaction w)"
  "next_state (EraseTransaction_it env t r w) = next_state w"
  "has_callback (EraseTransaction_it env t r w) = has_callback w"
  "cache_callback (EraseTransaction_it env t r w) = cache_callback w"
  "read_buf (EraseTransaction_it env t r w) = read_buf w"
  "io_buf_len (EraseTransaction_it env t r w) = io_buf_len w"
  "write_len (EraseTransaction_it env t r w) = write_len w"
  "network_read_only (EraseTransaction_it env t r w) = network_read_only w"
  "should_keep_entry (EraseTransaction_it env t r w) = should_keep_entry w"
  "partial_do_not_truncate (EraseTransaction_it env t r w) = partial_do_not_truncate w"
  "checksum (EraseTransaction_it env t r w) = checksum w"
  "response_info_truncation (EraseTransaction_it env t r w) = response_info_truncation w"
  "posted_callbacks (events (EraseTransaction_it env t r w)) = posted_callbacks (events w)"
  "removals (events (EraseTransaction_it env t r w)) = removals (events w) @ [(t, r)]"
  "body_writes (events (EraseTransaction_it env t r w)) = body_writes (events w)"
  "truncations (events (EraseTransaction_it env t r w)) = truncations (events w)"
  by (simp_all add: EraseTransaction_it_def Let_def)

lemma map_erase_absent: "t \<notin> fst ` set m \<Longrightarrow> map_erase t m = m"
  by (induction m) (auto simp add: map_erase_def)

lemma EraseTransaction_fields [simp]:
  "all_writers (EraseTransaction env t r w) = map_erase t (all_writers w)"
  "next_state (EraseTransaction env t r w) = next_state w"
  "has_callback (EraseTransaction env t r w) = has_callback w"
  "cache_callback (EraseTransaction env t r w) = cache_callback w"
  "read_buf (EraseTransaction env t r w) = read_buf w"
  "io_buf_len (EraseTransaction env t r w) = io_buf_len w"
  "write_len (EraseTransaction env t r w) = write_len w"
  "network_read_only (EraseTransaction env t r w) = network_read_only w"
  "should_keep_entry (EraseTransaction env t r w) = should_keep_entry w"
  "partial_do_not_truncate (EraseTransaction env t r w) = partial_do_not_truncate w"
  "checksum (EraseTransaction env t r w) = checksum w"
  "response_info_truncation (EraseTransaction env t r w) = response_info_truncation w"
  "posted_callbacks (events (EraseTransaction env t r w)) = posted_callbacks (events w)"
  "removals (events (EraseTransaction env t r w)) =
     removals (events w) @ (if t \<in> fst ` set (all_writers w) then [(t, r)] else [])"
  "body_writes (events (EraseTransaction env t r w)) = body_writes (events w)"
  "truncations (events (EraseTransaction env t r w)) = truncations (events w)"
  by (simp_all add: EraseTransaction_def map_erase_absent)


lemma EraseTransaction_queue_fields [simp]:
  "waiting_for_read (EraseTransaction env t r w) =
     (if t \<in> fst ` set (all_writers w) \<and> active_transaction w \<noteq> Some t
      then map_erase t (waiting_for_read w) else waiting_for_read w)"
  "active_transaction (EraseTransaction env t r w) =
     (if t \<in> fst ` set (all_writers w) \<and> active_transaction w = Some t
      then None else active_transaction w)"
  by (simp_all add: EraseTransaction_def)

lemma map_erase_simps [simp]:
  "map_erase t [] = []"
  "map_erase t (e # m) = (if fst e = t then map_erase t m else e # map_erase t m)"
  "map_erase t (map_erase t m) = map_erase t m"
  "fst ` set (map_erase t m) = fst ` set m - {t}"
  by (auto simp add: map_erase_def)

lemma map_erase_filter:
  "map_erase t (filter P m) = filter (\<lambda>e. fst e \<noteq> t \<and> P e) m"
  by (induction m) (auto simp add: map_erase_def)

lemma projections_list [simp]:
  "posted_callbacks [] = []"
  "posted_callbacks (e # es) = posted_of e @ posted_callbacks es"
  "removals [] = []"
  "removals (e # es) = removal_of e @ removals es"
  "body_writes [] = []"
  "body_writes (e # es) = (if is_body_write e then e # body_writes es else body_writes es)"
  "truncations [] = []"
  "truncations (e # es) =
     (if e = WriteData_response_info True then e # truncations es else truncations es)"
  by (simp_all add: posted_callbacks_def removals_def body_writes_def truncations_def)

lemma complete_waiting_frame:
  "next_state (complete_waiting env r ws w) = next_state w \<and>
   has_callback (complete_waiting env r ws w) = has_callback w \<and>
   cache_callback (complete_waiting env r ws w) = cache_callback w \<and>
   read_buf (complete_waiting env r ws w) = read_buf w \<and>
   io_buf_len (complete_waiting env r ws w) = io_buf_len w \<and>
   write_len (complete_waiting env r ws w) = write_len w \<and>
   network_read_only (complete_waiting env r ws w) = network_read_only w \<and>
   should_keep_entry (complete_waiting env r ws w) = should_keep_entry w \<and>
   partial_do_not_truncate (complete_waiting env r ws w) = partial_do_not_truncate w \<and>
   checksum (complete_waiting env r ws w) = checksum w \<and>
   response_info_truncation (complete_waiting env r ws w) = response_info_truncation w \<and>
   body_writes (events (complete_waiting env r ws w)) = body_writes (events w) \<and>
   truncations (events (complete_waiting env r ws w)) = truncations (events w) \<and>
   waiting_for_read (complete_waiting env r ws w) =
     filter (\<lambda>e. fst e \<notin> fst ` set ws) (waiting_for_read w)"
proof (induction ws arbitrary: w)
  case Nil
  show ?case by simp
next
  case (Cons a ws)
  obtain t i where a: "a = (t, i)" by (cases a)
  show ?case
    unfolding a by (simp add: Let_def Cons map_erase_filter) (auto simp add: map_erase_def intro: filter_cong)
qed

lemma complete_waiting_posted_error:
  "r < 0 \<Longrightarrow>
   posted_callbacks (events (complete_waiting env r ws w)) =
     posted_callbacks (events w) @ map (\<lambda>e. (fst e, r, waiting_read_buf (snd e))) ws"
proof (induction ws arbitrary: w)
  case Nil
  show ?case by simp
next
  case (Cons a ws)
  obtain t i where a: "a = (t, i)" by (cases a)
  show ?case unfolding a using Cons.prems by (simp add: Let_def Cons.IH)
qed

lemma complete_waiting_posted_data:
  "0 \<le> r \<Longrightarrow>
   posted_callbacks (events (complete_waiting env r ws w)) =
     posted_callbacks (events w) @
     map (\<lambda>e. (fst e, min (waiting_read_buf_len (snd e)) r,
                 memcpy (waiting_read_buf (snd e))
                   (case read_buf w of None \<Rightarrow> [] | Some src \<Rightarrow> src)
                   (min (waiting_read_buf_len (snd e)) r))) ws"
proof (induction ws arbitrary: w)
  case Nil
  show ?case by simp
next
  case (Cons a ws)
  obtain t i where a: "a = (t, i)" by (cases a)
  show ?case unfolding a using Cons.prems by (simp add: Let_def Cons.IH)
qed

lemma complete_waiting_positive:
  "0 < r \<Longrightarrow>
   all_writers (complete_waiting env r ws w) = all_writers w \<and>
   active_transaction (complete_waiting env r ws w) = active_transaction w \<and>
   removals (events (complete_waiting env r ws w)) = removals (events w)"
proof (induction ws arbitrary: w)
  case Nil
  show ?case by simp
next
  case (Cons a ws)
  obtain t i where a: "a = (t, i)" by (cases a)
  show ?case unfolding a using Cons.prems by (simp add: Let_def Cons.IH)
qed

lemma complete_waiting_fields [simp]:
  "next_state (complete_waiting env r ws w) = next_state w"
  "has_callback (complete_waiting env r ws w) = has_callback w"
  "cache_callback (complete_waiting env r ws w) = cache_callback w"
  "read_buf (complete_waiting env r ws w) = read_buf w"
  "io_buf_len (complete_waiting env r ws w) = io_buf_len w"
  "write_len (complete_waiting env r ws w) = write_len w"
  "network_read_only (complete_waiting env r ws w) = network_read_only w"
  "should_keep_entry (complete_waiting env r ws w) = should_keep_entry w"
  "partial_do_not_truncate (complete_waiting env r ws w) = partial_do_not_truncate w"
  "checksum (complete_waiting env r ws w) = checksum w"
  "response_info_truncation (complete_waiting env r ws w) = response_info_truncation w"
  "body_writes (events (complete_waiting env r ws w)) = body_writes (events w)"
  "truncations (events (complete_waiting env r ws w)) = truncations (events w)"
  "waiting_for_read (complete_waiting env r ws w) =
     filter (\<lambda>e. fst e \<notin> fst ` set ws) (waiting_for_read w)"
  using complete_waiting_frame [of env r ws w] by simp_all

lemma complete_waiting_removes:
  "r \<le> 0 \<Longrightarrow>
   all_writers (complete_waiting env r ws w) =
     filter (\<lambda>e. fst e \<notin> fst ` set ws) (all_writers w) \<and>
   (\<exists>rs. removals (events (complete_waiting env r ws w)) = removals (events w) @ rs \<and>
         set rs = (\<lambda>t. (t, r)) ` (fst ` set ws \<inter> fst ` set (all_writers w)))"
proof (induction ws arbitrary: w)
  case Nil
  show ?case by simp
next
  case (Cons a ws)
  obtain t i where a: "a = (t, i)" by (cases a)
  define w3 where
    "w3 = EraseTransaction env t r
            ((log_event (PostTask_callback t
                 (if 0 \<le> r then min (waiting_read_buf_len i) r else r)
                 (if 0 \<le> r
                  then memcpy (waiting_read_buf i)
                         (case read_buf w of None \<Rightarrow> [] | Some src \<Rightarrow> src)
                         (min (waiting_read_buf_len i) r)
                  else waiting_read_buf i)) w)
               \<lparr>waiting_for_read := map_erase t (waiting_for_read w)\<rparr>)"
  have step: "complete_waiting env r (a # ws) w = complete_waiting env r ws w3"
    using Cons.prems unfolding a w3_def by (simp add: Let_def)
  have aw3: "all_writers w3 = map_erase t (all_writers w)"
    unfolding w3_def by simp
  have rm3: "removals (events w3) =
               removals (events w) @ (if t \<in> fst ` set (all_writers w) then [(t, r)] else [])"
    unfolding w3_def by simp
  from Cons.IH [OF Cons.prems, of w3] obtain rs where
    aw: "all_writers (complete_waiting env r ws w3) =
           filter (\<lambda>e. fst e \<notin> fst ` set ws) (all_writers w3)"
    and rs: "removals (events (complete_waiting env r ws w3)) = removals (events w3) @ rs"
    and set_rs: "set rs = (\<lambda>t. (t, r)) ` (fst ` set ws \<inter> fst ` set (all_writers w3))"
    by blast
  have one: "all_writers (complete_waiting env r ws w3) =
               filter (\<lambda>e. fst e \<notin> fst ` set (a # ws)) (all_writers w)"
    unfolding aw aw3 a by (auto simp add: map_erase_def intro: filter_cong)
  let ?rs = "(if t \<in> fst ` set (all_writers w) then [(t, r)] else []) @ rs"
  have two: "removals (events (complete_waiting env r ws w3)) = removals (events w) @ ?rs"
    unfolding rs rm3 by simp
  have three: "set ?rs = (\<lambda>t. (t, r)) ` (fst ` set (a # ws) \<inter> fst ` set (all_writers w))"
    unfolding a using set_rs aw3 by auto
  from one two three show ?case unfolding step by blast
qed

lemma complete_waiting_no_active:
  "active_transaction w = None \<Longrightarrow> active_transaction (complete_waiting env r ws w) = None"
proof (induction ws arbitrary: w)
  case Nil
  thus ?case by simp
next
  case (Cons a ws)
  obtain t i where a: "a = (t, i)" by (cases a)
  show ?case unfolding a using Cons.prems by (simp add: Let_def Cons.IH)
qed

lemma remove_idle_frame:
  "next_state (remove_idle env r ts w) = next_state w \<and>
   has_callback (remove_idle env r ts w) = has_callback w \<and>
   cache_callback (remove_idle env r ts w) = cache_callback w \<and>
   read_buf (remove_idle env r ts w) = read_buf w \<and>
   io_buf_len (remove_idle env r ts w) = io_buf_len w \<and>
   write_len (remove_idle env r ts w) = write_len w \<and>
   network_read_only (remove_idle env r ts w) = network_read_only w \<and>
   should_keep_entry (remove_idle env r ts w) = should_keep_entry w \<and>
   partial_do_not_truncate (remove_idle env r ts w) = partial_do_not_truncate w \<and>
   checksum (remove_idle env r ts w) = checksum w \<and>
   response_info_truncation (remove_idle env r ts w) = response_info_truncation w \<and>
   body_writes (events (remove_idle env r ts w)) = body_writes (events w) \<and>
   truncations (events (remove_idle env r ts w)) = truncations (events w) \<and>
   posted_callbacks (events (remove_idle env r ts w)) = posted_callbacks (events w) \<and>
   active_transaction (remove_idle env r ts w) = active_transaction w \<and>
   all_writers (remove_idle env r ts w) =
     filter (\<lambda>e. fst e \<notin> set ts \<or> Some (fst e) = active_transaction w) (all_writers w) \<and>
   waiting_for_read (remove_idle env r ts w) =
     filter (\<lambda>e. fst e \<notin> set ts \<or> Some (fst e) = active_transaction w) (waiting_for_read w) \<and>
   removals (events (remove_idle env r ts w)) =
     removals (events w) @ map (\<lambda>t. (t, r)) (filter (\<lambda>t. Some t \<noteq> active_transaction w) ts)"
proof (induction ts arbitrary: w)
  case Nil
  show ?case by simp
next
  case (Cons t ts)
  show ?case
    by (simp add: Cons map_erase_def) (auto intro: filter_cong)
qed

lemma remove_idle_fields [simp]:
  "next_state (remove_idle env r ts w) = next_state w"
  "has_callback (remove_idle env r ts w) = has_callback w"
  "cache_callback (remove_idle env r ts w) = cache_callback w"
  "read_buf (remove_idle env r ts w) = read_buf w"
  "io_buf_len (remove_idle env r ts w) = io_buf_len w"
  "write_len (remove_idle env r ts w) = write_len w"
  "network_read_only (remove_idle env r ts w) = network_read_only w"
  "should_keep_entry (remove_idle env r ts w) = should_keep_entry w"
  "partial_do_not_truncate (remove_idle env r ts w) = partial_do_not_truncate w"
  "checksum (remove_idle env r ts w) = checksum w"
  "response_info_truncation (remove_idle env r ts w) = response_info_truncation w"
  "body_writes (events (remove_idle env r ts w)) = body_writes (events w)"
  "truncations (events (remove_idle env r ts w)) = truncations (events w)"
  "posted_callbacks (events (remove_idle env r ts w)) = posted_callbacks (events w)"
  "active_transaction (remove_idle env r ts w) = active_transaction w"
  "all_writers (remove_idle env r ts w) =
     filter (\<lambda>e. fst e \<notin> set ts \<or> Some (fst e) = active_transaction w) (all_writers w)"
  "waiting_for_read (remove_idle env r ts w) =
     filter (\<lambda>e. fst e \<notin> set ts \<or> Some (fst e) = active_transaction w) (waiting_for_read w)"
  "removals (events (remove_idle env r ts w)) =
     removals (events w) @ map (\<lambda>t. (t, r)) (filter (\<lambda>t. Some t \<noteq> active_transaction w) ts)"
  using remove_idle_frame [of env r ts w] by simp_all

lemma ProcessFailure_fields [simp]:
  "next_state (ProcessFailure env r w) = next_state w"
  "has_callback (ProcessFailure env r w) = has_callback w"
  "cache_callback (ProcessFailure env r w) = cache_callback w"
  "read_buf (ProcessFailure env r w) = read_buf w"
  "io_buf_len (ProcessFailure env r w) = io_buf_len w"
  "write_len (ProcessFailure env r w) = write_len w"
  "network_read_only (ProcessFailure env r w) = network_read_only w"
  "should_keep_entry (ProcessFailure env r w) = should_keep_entry w"
  "partial_do_not_truncate (ProcessFailure env r w) = partial_do_not_truncate w"
  "checksum (ProcessFailure env r w) = checksum w"
  "response_info_truncation (ProcessFailure env r w) = response_info_truncation w"
  "body_writes (events (ProcessFailure env r w)) = body_writes (events w)"
  "truncations (events (ProcessFailure env r w)) = truncations (events w)"
  "waiting_for_read (ProcessFailure env r w) = []"
  by (simp_all add: ProcessFailure_def RemoveIdleWriters_def
        CompleteWaitingForReadTransactions_def)

lemma ProcessFailure_posted_error:
  "r < 0 \<Longrightarrow>
   posted_callbacks (events (ProcessFailure env r w)) =
     posted_callbacks (events w) @
     map (\<lambda>e. (fst e, r, waiting_read_buf (snd e))) (waiting_for_read w)"
  by (simp add: ProcessFailure_def RemoveIdleWriters_def
        CompleteWaitingForReadTransactions_def complete_waiting_posted_error)

lemma ProcessFailure_posted_data:
  "0 \<le> r \<Longrightarrow>
   posted_callbacks (events (ProcessFailure env r w)) =
     posted_callbacks (events w) @
     map (\<lambda>e. (fst e, min (waiting_read_buf_len (snd e)) r,
                 memcpy (waiting_read_buf (snd e))
                   (case read_buf w of None \<Rightarrow> [] | Some src \<Rightarrow> src)
                   (min (waiting_read_buf_len (snd e)) r))) (waiting_for_read w)"
  by (simp add: ProcessFailure_def RemoveIdleWriters_def
        CompleteWaitingForReadTransactions_def complete_waiting_posted_data)

lemma ProcessFailure_removes:
  assumes "r \<le> 0"
  shows "\<exists>rs. removals (events (ProcessFailure env r w)) = removals (events w) @ rs \<and>
           set rs = (\<lambda>t. (t, r)) `
                      (fst ` set (all_writers w) - fst ` set (all_writers (ProcessFailure env r w))) \<and>
           fst ` set (all_writers (ProcessFailure env r w)) \<subseteq> fst ` set (all_writers w) \<and>
           (\<forall>e \<in> set (all_writers (ProcessFailure env r w)).
              Some (fst e) = active_transaction (ProcessFailure env r w))"
proof -
  define w1 where "w1 = complete_waiting env r (waiting_for_read w) w"
  have pf: "ProcessFailure env r w = remove_idle env r (map fst (all_writers w1)) w1"
    by (simp add: ProcessFailure_def RemoveIdleWriters_def
          CompleteWaitingForReadTransactions_def w1_def)
  from complete_waiting_removes [OF assms, of env "waiting_for_read w" w] obtain rs1 where
    aw1: "all_writers w1 =
            filter (\<lambda>e. fst e \<notin> fst ` set (waiting_for_read w)) (all_writers w)"
    and rs1: "removals (events w1) = removals (events w) @ rs1"
    and set1: "set rs1 = (\<lambda>t. (t, r)) `
                 (fst ` set (waiting_for_read w) \<inter> fst ` set (all_writers w))"
    unfolding w1_def by blast
  let ?rs2 = "map (\<lambda>t. (t, r))
                (filter (\<lambda>t. Some t \<noteq> active_transaction w1) (map fst (all_writers w1)))"
  have rm: "removals (events (ProcessFailure env r w)) = removals (events w) @ (rs1 @ ?rs2)"
    unfolding pf by (simp add: rs1)
  have aw: "all_writers (ProcessFailure env r w) =
              filter (\<lambda>e. Some (fst e) = active_transaction w1) (all_writers w1)"
    unfolding pf by (auto intro: filter_cong)
  have act: "active_transaction (ProcessFailure env r w) = active_transaction w1"
    unfolding pf by simp
  have s: "set (rs1 @ ?rs2) = (\<lambda>t. (t, r)) `
             (fst ` set (all_writers w) - fst ` set (all_writers (ProcessFailure env r w)))"
    unfolding aw aw1 using set1 by (auto simp add: image_iff) force+
  have sub: "fst ` set (all_writers (ProcessFailure env r w)) \<subseteq> fst ` set (all_writers w)"
    unfolding aw aw1 by auto
  have only: "\<forall>e \<in> set (all_writers (ProcessFailure env r w)).
                Some (fst e) = active_transaction (ProcessFailure env r w)"
    unfolding act unfolding aw by simp
  from rm s sub only show ?thesis by blast
qed

lemma ShouldTruncate_fields [simp]:
  "next_state (snd (ShouldTruncate env w)) = next_state w"
  "all_writers (snd (ShouldTruncate env w)) = all_writers w"
  "waiting_for_read (snd (ShouldTruncate env w)) = waiting_for_read w"
  "active_transaction (snd (ShouldTruncate env w)) = active_transaction w"
  "has_callback (snd (ShouldTruncate env w)) = has_callback w"
  "cache_callback (snd (ShouldTruncate env w)) = cache_callback w"
  "read_buf (snd (ShouldTruncate env w)) = read_buf w"
  "io_buf_len (snd (ShouldTruncate env w)) = io_buf_len w"
  "write_len (snd (ShouldTruncate env w)) = write_len w"
  "network_read_only (snd (ShouldTruncate env w)) = network_read_only w"
  "partial_do_not_truncate (snd (ShouldTruncate env w)) = partial_do_not_truncate w"
  "checksum (snd (ShouldTruncate env w)) = checksum w"
  "response_info_truncation (snd (ShouldTruncate env w)) = response_info_truncation w"
  "events (snd (ShouldTruncate env w)) = events w"
  by (simp_all add: ShouldTruncate_def split: option.splits)

lemma ShouldTruncate_keep:
  "should_keep_entry (snd (ShouldTruncate env w)) \<Longrightarrow> should_keep_entry w"
  by (simp add: ShouldTruncate_def split: option.splits if_splits)

lemma ShouldTruncate_cong:
  "should_keep_entry w = should_keep_entry v \<Longrightarrow>
   partial_do_not_truncate w = partial_do_not_truncate v \<Longrightarrow>
   response_info_truncation w = response_info_truncation v \<Longrightarrow>
   fst (ShouldTruncate env w) = fst (ShouldTruncate env v) \<and>
   should_keep_entry (snd (ShouldTruncate env w)) = should_keep_entry (snd (ShouldTruncate env v))"
  by (simp add: ShouldTruncate_def split: option.splits)

lemma TruncateEntry_fields [simp]:
  "next_state (TruncateEntry env w) = next_state w"
  "all_writers (TruncateEntry env w) = all_writers w"
  "waiting_for_read (TruncateEntry env w) = waiting_for_read w"
  "active_transaction (TruncateEntry env w) = active_transaction w"
  "has_callback (TruncateEntry env w) = has_callback w"
  "cache_callback (TruncateEntry env w) = cache_callback w"
  "read_buf (TruncateEntry env w) = read_buf w"
  "write_len (TruncateEntry env w) = write_len w"
  "network_read_only (TruncateEntry env w) = network_read_only w"
  "should_keep_entry (TruncateEntry env w) = should_keep_entry w"
  "partial_do_not_truncate (TruncateEntry env w) = partial_do_not_truncate w"
  "checksum (TruncateEntry env w) = checksum w"
  "response_info_truncation (TruncateEntry env w) = response_info_truncation w"
  "events (TruncateEntry env w) = events w @ [WriteData_response_info True]"
  by (simp_all add: TruncateEntry_def)

lemma SetCacheCallback_fields [simp]:
  "next_state (SetCacheCallback s m w) = next_state w"
  "all_writers (SetCacheCallback s m w) = all_writers w"
  "waiting_for_read (SetCacheCallback s m w) = waiting_for_read w"
  "active_transaction (SetCacheCallback s m w) = active_transaction w"
  "has_callback (SetCacheCallback s m w) = has_callback w"
  "cache_callback (SetCacheCallback s m w) = Some (s, should_keep_entry w, m)"
  "read_buf (SetCacheCallback s m w) = read_buf w"
  "io_buf_len (SetCacheCallback s m w) = io_buf_len w"
  "write_len (SetCacheCallback s m w) = write_len w"
  "network_read_only (SetCacheCallback s m w) = network_read_only w"
  "should_keep_entry (SetCacheCallback s m w) = should_keep_entry w"
  "partial_do_not_truncate (SetCacheCallback s m w) = partial_do_not_truncate w"
  "checksum (SetCacheCallback s m w) = checksum w"
  "response_info_truncation (SetCacheCallback s m w) = response_info_truncation w"
  "events (SetCacheCallback s m w) = events w"
  by (simp_all add: SetCacheCallback_def)

lemma OnNetworkReadFailure_fields [simp]:
  "next_state (OnNetworkReadFailure env r w) = next_state w"
  "waiting_for_read (OnNetworkReadFailure env r w) = []"
  "active_transaction (OnNetworkReadFailure env r w) = None"
  "has_callback (OnNetworkReadFailure env r w) = has_callback w"
  "read_buf (OnNetworkReadFailure env r w) = read_buf w"
  "write_len (OnNetworkReadFailure env r w) = write_len w"
  "network_read_only (OnNetworkReadFailure env r w) = network_read_only w"
  "partial_do_not_truncate (OnNetworkReadFailure env r w) = partial_do_not_truncate w"
  "checksum (OnNetworkReadFailure env r w) = checksum w"
  "response_info_truncation (OnNetworkReadFailure env r w) = response_info_truncation w"
  "body_writes (events (OnNetworkReadFailure env r w)) = body_writes (events w)"
  by (simp_all add: OnNetworkReadFailure_def Let_def split_beta split: option.splits)

lemma OnNetworkReadFailure_posted_error:
  "r < 0 \<Longrightarrow>
   posted_callbacks (events (OnNetworkReadFailure env r w)) =
     posted_callbacks (events w) @
     map (\<lambda>e. (fst e, r, waiting_read_buf (snd e))) (waiting_for_read w)"
  by (simp add: OnNetworkReadFailure_def Let_def split_beta ProcessFailure_posted_error
        split: option.splits)

lemma OnNetworkReadFailure_posted_data:
  "0 \<le> r \<Longrightarrow>
   posted_callbacks (events (OnNetworkReadFailure env r w)) =
     posted_callbacks (events w) @
     map (\<lambda>e. (fst e, min (waiting_read_buf_len (snd e)) r,
                 memcpy (waiting_read_buf (snd e))
                   (case read_buf w of None \<Rightarrow> [] | Some src \<Rightarrow> src)
                   (min (waiting_read_buf_len (snd e)) r))) (waiting_for_read w)"
  by (simp add: OnNetworkReadFailure_def Let_def split_beta ProcessFailure_posted_data
        split: option.splits)

lemma OnNetworkReadFailure_truncation:
  "truncations (events (OnNetworkReadFailure env r w)) =
     truncations (events w) @
     (if fst (ShouldTruncate env w) then [WriteData_response_info True] else [])"
  "should_keep_entry (OnNetworkReadFailure env r w) =
     should_keep_entry (snd (ShouldTruncate env w))"
  "cache_callback (OnNetworkReadFailure env r w) =
     Some (False, should_keep_entry (snd (ShouldTruncate env w)), [])"
proof -
  define w3 where
    "w3 = (case active_transaction (ProcessFailure env r w) of
             Some t \<Rightarrow> EraseTransaction env t r (ProcessFailure env r w)
           | None \<Rightarrow> ProcessFailure env r w)\<lparr>active_transaction := None\<rparr>"
  have same: "should_keep_entry w3 = should_keep_entry w"
    "partial_do_not_truncate w3 = partial_do_not_truncate w"
    "response_info_truncation w3 = response_info_truncation w"
    "truncations (events w3) = truncations (events w)"
    unfolding w3_def by (simp_all split: option.splits)
  have st: "fst (ShouldTruncate env w3) = fst (ShouldTruncate env w)"
    "should_keep_entry (snd (ShouldTruncate env w3)) =
       should_keep_entry (snd (ShouldTruncate env w))"
    using ShouldTruncate_cong [OF same(1) same(2) same(3), of env] by simp_all
  have unfold: "OnNetworkReadFailure env r w =
      SetCacheCallback False []
        (if fst (ShouldTruncate env w3) then TruncateEntry env (snd (ShouldTruncate env w3))
         else snd (ShouldTruncate env w3))"
    unfolding w3_def by (simp add: OnNetworkReadFailure_def Let_def split_beta)
  show "truncations (events (OnNetworkReadFailure env r w)) =
     truncations (events w) @
     (if fst (ShouldTruncate env w) then [WriteData_response_info True] else [])"
    unfolding unfold by (simp add: st same)
  show "should_keep_entry (OnNetworkReadFailure env r w) =
     should_keep_entry (snd (ShouldTruncate env w))"
    unfolding unfold by (simp add: st)
  show "cache_callback (OnNetworkReadFailure env r w) =
     Some (False, should_keep_entry (snd (ShouldTruncate env w)), [])"
    unfolding unfold by (simp add: st)
qed

lemma OnNetworkReadFailure_removes:
  assumes "r \<le> 0"
  shows "all_writers (OnNetworkReadFailure env r w) = [] \<and>
         (\<exists>rs. removals (events (OnNetworkReadFailure env r w)) = removals (events w) @ rs \<and>
               set rs = (\<lambda>t. (t, r)) ` fst ` set (all_writers w))"
proof -
  define w1 where "w1 = ProcessFailure env r w"
  define w2 where
    "w2 = (case active_transaction w1 of Some t \<Rightarrow> EraseTransaction env t r w1 | None \<Rightarrow> w1)"
  from ProcessFailure_removes [OF assms, of env w] obtain rs1 where
    rs1: "removals (events w1) = removals (events w) @ rs1"
    and set1: "set rs1 = (\<lambda>t. (t, r)) ` (fst ` set (all_writers w) - fst ` set (all_writers w1))"
    and sub: "fst ` set (all_writers w1) \<subseteq> fst ` set (all_writers w)"
    and only: "\<forall>e \<in> set (all_writers w1). Some (fst e) = active_transaction w1"
    unfolding w1_def by blast
  have final: "all_writers (OnNetworkReadFailure env r w) = all_writers w2"
    "removals (events (OnNetworkReadFailure env r w)) = removals (events w2)"
    unfolding w2_def w1_def
    by (simp_all add: OnNetworkReadFailure_def Let_def split_beta)
  have aw2: "all_writers w2 = []"
  proof (cases "active_transaction w1")
    case None
    with only have "all_writers w1 = []" by (cases "all_writers w1") auto
    with None show ?thesis by (simp add: w2_def)
  next
    case (Some a)
    with only have "\<forall>e \<in> set (all_writers w1). fst e = a" by auto
    hence "map_erase a (all_writers w1) = []" by (simp add: map_erase_def filter_empty_conv)
    with Some show ?thesis by (simp add: w2_def)
  qed
  let ?rs2 = "(case active_transaction w1 of
                 Some a \<Rightarrow> if a \<in> fst ` set (all_writers w1) then [(a, r)] else []
               | None \<Rightarrow> [])"
  have rm2: "removals (events w2) = removals (events w) @ (rs1 @ ?rs2)"
    unfolding w2_def by (simp add: rs1 split: option.splits)
  have set2: "set ?rs2 = (\<lambda>t. (t, r)) ` fst ` set (all_writers w1)"
  proof (cases "active_transaction w1")
    case None
    with only have "all_writers w1 = []" by (cases "all_writers w1") auto
    with None show ?thesis by simp
  next
    case (Some a)
    with only have "\<forall>e \<in> set (all_writers w1). fst e = a" by auto
    with Some show ?thesis by (auto simp add: image_iff)
  qed
  have "set (rs1 @ ?rs2) =
          (\<lambda>t. (t, r)) ` ((fst ` set (all_writers w) - fst ` set (all_writers w1)) \<union>
                           fst ` set (all_writers w1))"
    unfolding set_append set1 set2 by (simp only: image_Un)
  also have "(fst ` set (all_writers w) - fst ` set (all_writers w1)) \<union>
               fst ` set (all_writers w1) = fst ` set (all_writers w)"
    using sub by blast
  finally have s: "set (rs1 @ ?rs2) = (\<lambda>t. (t, r)) ` fst ` set (all_writers w)" .
  have a: "all_writers (OnNetworkReadFailure env r w) = []"
    using final(1) aw2 by simp
  have b: "removals (events (OnNetworkReadFailure env r w)) = removals (events w) @ (rs1 @ ?rs2)"
    using final(2) rm2 by simp
  from a b s show ?thesis by blast
qed

lemma DoLoop_finished:
  assumes "do_loop env rv w = Some (w1, rv1)" and "next_state w1 = NONE"
  shows "DoLoop env rv w =
           Some ((if rv1 \<noteq> ERR_IO_PENDING \<and> has_callback w1
                  then log_event (Run_callback rv1) else (\<lambda>v. v))
                   (case cache_callback w1 of
                      None \<Rightarrow> w1\<lparr>has_callback := False, read_buf := None\<rparr>
                    | Some c \<Rightarrow>
                        log_event (WritersDoneWritingToEntry (fst c) (fst (snd c)) (snd (snd c)))
                          (w1\<lparr>has_callback := False, read_buf := None,
                              cache_callback := None\<rparr>)),
                 rv1)"
  using assms by (simp add: DoLoop_def Let_def split_beta split: option.splits)

text \<open>
  Claim C8. When the network read of the cycle in flight completes with an error code
  \<open>E < 0\<close>, the call returns \<open>E\<close> and leaves no transaction in the session: neither a
  writer, nor a queued one, nor an active one. Every queued consumer has had its callback
  posted with \<open>E\<close>, its buffer as it was; every transaction that was attached (queued, idle
  or active) has been told that it is removed, with \<open>E\<close>; and the response info is
  written with the truncated flag exactly when \<open>ShouldTruncate\<close> says so.
\<close>

theorem network_read_error_fails_all:
  assumes "next_state w = NETWORK_READ_COMPLETE" and "E < 0"
  shows "\<exists>w'. OnIOComplete env E w = Some (w', E) \<and>
           next_state w' = NONE \<and>
           all_writers w' = [] \<and> waiting_for_read w' = [] \<and> active_transaction w' = None \<and>
           posted_callbacks (events w') =
             posted_callbacks (events w) @
             map (\<lambda>e. (fst e, E, waiting_read_buf (snd e))) (waiting_for_read w) \<and>
           (\<exists>rs. removals (events w') = removals (events w) @ rs \<and>
                 set rs = (\<lambda>t. (t, E)) ` fst ` set (all_writers w)) \<and>
           truncations (events w') =
             truncations (events w) @
             (if fst (ShouldTruncate env w) then [WriteData_response_info True] else [])"
proof -
  define w0 where "w0 = w\<lparr>next_state := NONE\<rparr>"
  define w1 where "w1 = OnNetworkReadFailure env E w0"
  have loop: "do_loop env E w = Some (w1, E)"
    unfolding w1_def w0_def
    by (subst do_loop.simps) (simp add: do_state_def DoNetworkReadComplete_def assms)
  have ns: "next_state w1 = NONE"
    unfolding w1_def w0_def by simp
  have cb: "cache_callback w1 = Some (False, should_keep_entry (snd (ShouldTruncate env w0)), [])"
    unfolding w1_def by (rule OnNetworkReadFailure_truncation(3))
  from assms(2) have le: "E \<le> 0" by simp
  from OnNetworkReadFailure_removes [OF le, of env w0] obtain rs where
    aw: "all_writers w1 = []"
    and rs: "removals (events w1) = removals (events w0) @ rs"
    and set_rs: "set rs = (\<lambda>t. (t, E)) ` fst ` set (all_writers w0)"
    unfolding w1_def by blast
  have posted: "posted_callbacks (events w1) =
                  posted_callbacks (events w0) @
                  map (\<lambda>e. (fst e, E, waiting_read_buf (snd e))) (waiting_for_read w0)"
    unfolding w1_def using assms(2) by (rule OnNetworkReadFailure_posted_error)
  have st: "fst (ShouldTruncate env w0) = fst (ShouldTruncate env w)"
    using ShouldTruncate_cong [of w0 w env] by (simp add: w0_def)
  have trunc: "truncations (events w1) =
                 truncations (events w0) @
                 (if fst (ShouldTruncate env w) then [WriteData_response_info True] else [])"
    unfolding w1_def OnNetworkReadFailure_truncation(1) st ..
  have others: "waiting_for_read w1 = []" "active_transaction w1 = None"
    unfolding w1_def by simp_all
  define w' where
    "w' = (if E \<noteq> ERR_IO_PENDING \<and> has_callback w1
           then log_event (Run_callback E) else (\<lambda>v. v))
            (log_event
               (WritersDoneWritingToEntry False
                  (should_keep_entry (snd (ShouldTruncate env w0))) [])
               (w1\<lparr>has_callback := False, read_buf := None, cache_callback := None\<rparr>))"
  have result: "OnIOComplete env E w = Some (w', E)"
    unfolding OnIOComplete_def DoLoop_finished [OF loop ns] w'_def by (simp add: cb)
  have "next_state w' = NONE" unfolding w'_def by (simp add: ns)
  moreover have "all_writers w' = []" unfolding w'_def by (simp add: aw)
  moreover have "waiting_for_read w' = []" unfolding w'_def by (simp add: others)
  moreover have "active_transaction w' = None" unfolding w'_def by (simp add: others)
  moreover have "posted_callbacks (events w') =
             posted_callbacks (events w) @
             map (\<lambda>e. (fst e, E, waiting_read_buf (snd e))) (waiting_for_read w)"
    unfolding w'_def by (simp add: posted) (simp add: w0_def)
  moreover have "removals (events w') = removals (events w) @ rs"
    unfolding w'_def by (simp add: rs) (simp add: w0_def)
  moreover have "set rs = (\<lambda>t. (t, E)) ` fst ` set (all_writers w)"
    using set_rs by (simp add: w0_def)
  moreover have "truncations (events w') =
             truncations (events w) @
             (if fst (ShouldTruncate env w) then [WriteData_response_info True] else [])"
    unfolding w'_def by (simp add: trunc) (simp add: w0_def)
  ultimately show ?thesis using result by blast
qed

text \<open>
  Claim C9. With more than one transaction attached, \<open>StopCaching\<close> answers no and leaves
  the session as it is. With exactly one, it answers yes and sets \<open>network_read_only\<close>;
  \<open>should_keep_entry\<close> is cleared and the entry doomed exactly when \<open>keep_entry\<close> is false,
  and nothing else changes.
\<close>

theorem stop_caching_needs_sole_writer:
  "(1 < length (all_writers w) \<longrightarrow> StopCaching keep_entry w = (w, False)) \<and>
   (length (all_writers w) = 1 \<longrightarrow>
      snd (StopCaching keep_entry w) \<and>
      network_read_only (fst (StopCaching keep_entry w)) \<and>
      should_keep_entry (fst (StopCaching keep_entry w)) = (keep_entry \<and> should_keep_entry w) \<and>
      events (fst (StopCaching keep_entry w)) =
        events w @ (if keep_entry then [] else [WritersDoomEntryRestartTransactions]) \<and>
      fst (StopCaching keep_entry w) =
        w\<lparr>network_read_only := True,
           should_keep_entry := keep_entry \<and> should_keep_entry w,
           events := events w @
                     (if keep_entry then [] else [WritersDoomEntryRestartTransactions])\<rparr>)"
  by (simp add: StopCaching_def Let_def log_event_def)

lemma OnCacheWriteFailure_fields [simp]:
  "next_state (OnCacheWriteFailure env w) = next_state w"
  "waiting_for_read (OnCacheWriteFailure env w) = []"
  "active_transaction (OnCacheWriteFailure env w) = None"
  "has_callback (OnCacheWriteFailure env w) = has_callback w"
  "read_buf (OnCacheWriteFailure env w) = read_buf w"
  "write_len (OnCacheWriteFailure env w) = write_len w"
  "network_read_only (OnCacheWriteFailure env w)"
  "\<not> should_keep_entry (OnCacheWriteFailure env w)"
  "partial_do_not_truncate (OnCacheWriteFailure env w) = partial_do_not_truncate w"
  "checksum (OnCacheWriteFailure env w) = checksum w"
  "response_info_truncation (OnCacheWriteFailure env w) = response_info_truncation w"
  "body_writes (events (OnCacheWriteFailure env w)) = body_writes (events w)"
  "truncations (events (OnCacheWriteFailure env w)) = truncations (events w)"
  by (simp_all add: OnCacheWriteFailure_def Let_def)

lemma OnCacheWriteFailure_posted:
  "posted_callbacks (events (OnCacheWriteFailure env w)) =
     posted_callbacks (events w) @
     map (\<lambda>e. (fst e, ERR_CACHE_WRITE_FAILURE, waiting_read_buf (snd e))) (waiting_for_read w)"
  by (simp add: OnCacheWriteFailure_def Let_def ProcessFailure_posted_error
        ERR_CACHE_WRITE_FAILURE_def)

lemma active_is_partial_cong:
  "active_transaction v = active_transaction w \<Longrightarrow> all_writers v = all_writers w \<Longrightarrow>
   active_is_partial v = active_is_partial w"
  by (simp add: active_is_partial_def split: option.splits)

lemma CompleteWaitingForReadTransactions_fields [simp]:
  "next_state (CompleteWaitingForReadTransactions env r w) = next_state w"
  "has_callback (CompleteWaitingForReadTransactions env r w) = has_callback w"
  "cache_callback (CompleteWaitingForReadTransactions env r w) = cache_callback w"
  "read_buf (CompleteWaitingForReadTransactions env r w) = read_buf w"
  "io_buf_len (CompleteWaitingForReadTransactions env r w) = io_buf_len w"
  "write_len (CompleteWaitingForReadTransactions env r w) = write_len w"
  "network_read_only (CompleteWaitingForReadTransactions env r w) = network_read_only w"
  "should_keep_entry (CompleteWaitingForReadTransactions env r w) = should_keep_entry w"
  "partial_do_not_truncate (CompleteWaitingForReadTransactions env r w) =
     partial_do_not_truncate w"
  "checksum (CompleteWaitingForReadTransactions env r w) = checksum w"
  "response_info_truncation (CompleteWaitingForReadTransactions env r w) =
     response_info_truncation w"
  "body_writes (events (CompleteWaitingForReadTransactions env r w)) = body_writes (events w)"
  "truncations (events (CompleteWaitingForReadTransactions env r w)) = truncations (events w)"
  "waiting_for_read (CompleteWaitingForReadTransactions env r w) = []"
  by (simp_all add: CompleteWaitingForReadTransactions_def)

lemma OnDataReceived_fields [simp]:
  "next_state (OnDataReceived env r w) = next_state w"
  "has_callback (OnDataReceived env r w) = has_callback w"
  "read_buf (OnDataReceived env r w) = read_buf w"
  "write_len (OnDataReceived env r w) = write_len w"
  "network_read_only (OnDataReceived env r w) = network_read_only w"
  "partial_do_not_truncate (OnDataReceived env r w) = partial_do_not_truncate w"
  "checksum (OnDataReceived env r w) = checksum w"
  "response_info_truncation (OnDataReceived env r w) = response_info_truncation w"
  "body_writes (events (OnDataReceived env r w)) = body_writes (events w)"
  "active_transaction (OnDataReceived env r w) = None"
  by (simp_all add: OnDataReceived_def Let_def CompleteWaitingForReadTransactions_def
        complete_waiting_no_active split: option.splits)

lemma do_state_read_only:
  assumes "network_read_only w" and "do_state env s rv w = Some y"
  shows "network_read_only (fst y) \<and> body_writes (events (fst y)) = body_writes (events w)"
proof (cases s)
  case UNSET
  with assms show ?thesis by (auto simp add: do_state_def)
next
  case NONE
  with assms show ?thesis by (auto simp add: do_state_def)
next
  case NETWORK_READ
  with assms show ?thesis by (auto simp add: do_state_def DoNetworkRead_def Let_def)
next
  case NETWORK_READ_COMPLETE
  with assms show ?thesis by (auto simp add: do_state_def DoNetworkReadComplete_def)
next
  case CACHE_WRITE_DATA
  with assms show ?thesis by (auto simp add: do_state_def DoCacheWriteData_def Let_def)
next
  case CACHE_WRITE_DATA_COMPLETE
  with assms show ?thesis
    by (auto simp add: do_state_def DoCacheWriteDataComplete_def Let_def
          split: if_splits option.splits)
next
  case MARK_SINGLE_KEYED_CACHE_ENTRY_UNUSABLE
  with assms show ?thesis
    by (auto simp add: do_state_def DoMarkSingleKeyedCacheEntryUnusable_def)
next
  case MARK_SINGLE_KEYED_CACHE_ENTRY_UNUSABLE_COMPLETE
  with assms show ?thesis
    by (auto simp add: do_state_def DoMarkSingleKeyedCacheEntryUnusableComplete_def Let_def)
qed

lemma do_loop_read_only:
  assumes "do_loop env rv w = Some y"
  shows "network_read_only w \<longrightarrow>
         network_read_only (fst y) \<and> body_writes (events (fst y)) = body_writes (events w)"
proof (rule do_loop.raw_induct
    [where P = "\<lambda>env rv w y. network_read_only w \<longrightarrow>
                  network_read_only (fst y) \<and>
                  body_writes (events (fst y)) = body_writes (events w)",
     OF _ assms])
  fix loop :: "io_env \<Rightarrow> int \<Rightarrow> Writers \<Rightarrow> (Writers \<times> int) option"
  fix env rv w y
  assume IH: "\<And>env rv w y. loop env rv w = Some y \<Longrightarrow>
                network_read_only w \<longrightarrow>
                network_read_only (fst y) \<and>
                body_writes (events (fst y)) = body_writes (events w)"
  assume body: "(case do_state env (next_state w) rv (w\<lparr>next_state := UNSET\<rparr>) of
                   None \<Rightarrow> None
                 | Some r \<Rightarrow>
                     if next_state (fst r) \<noteq> NONE \<and> snd r \<noteq> ERR_IO_PENDING
                     then loop env (snd r) (fst r) else Some r) = Some y"
  show "network_read_only w \<longrightarrow>
        network_read_only (fst y) \<and> body_writes (events (fst y)) = body_writes (events w)"
  proof
    assume ro: "network_read_only w"
    from body obtain r where
      r: "do_state env (next_state w) rv (w\<lparr>next_state := UNSET\<rparr>) = Some r"
      and rest: "(if next_state (fst r) \<noteq> NONE \<and> snd r \<noteq> ERR_IO_PENDING
                  then loop env (snd r) (fst r) else Some r) = Some y"
      by (auto split: option.splits)
    from ro have "network_read_only (w\<lparr>next_state := UNSET\<rparr>)" by simp
    from do_state_read_only [OF this r]
    have step: "network_read_only (fst r)" "body_writes (events (fst r)) = body_writes (events w)"
      by simp_all
    show "network_read_only (fst y) \<and> body_writes (events (fst y)) = body_writes (events w)"
    proof (cases "next_state (fst r) \<noteq> NONE \<and> snd r \<noteq> ERR_IO_PENDING")
      case True
      with rest have "loop env (snd r) (fst r) = Some y" by simp
      from IH [OF this] step show ?thesis by simp
    next
      case False
      with rest have "y = r" by simp
      with step show ?thesis by simp
    qed
  qed
qed

lemma DoLoop_read_only:
  assumes "DoLoop env rv w = Some y" and "network_read_only w"
  shows "network_read_only (fst y) \<and> body_writes (events (fst y)) = body_writes (events w)"
proof -
  from assms(1) obtain w1 rv1 where loop: "do_loop env rv w = Some (w1, rv1)"
    by (auto simp add: DoLoop_def split: option.splits)
  from do_loop_read_only [OF loop] assms(2)
  have "network_read_only w1" "body_writes (events w1) = body_writes (events w)" by simp_all
  with assms(1) loop show ?thesis
    by (auto simp add: DoLoop_def Let_def split: option.splits if_splits)
qed

lemma Read_read_only:
  assumes "Read env buf buf_len t w = Some y" and "network_read_only w"
  shows "network_read_only (fst y) \<and> body_writes (events (fst y)) = body_writes (events w)"
proof (cases "next_state w = NONE")
  case False
  with assms show ?thesis by (auto simp add: Read_def)
next
  case True
  let ?w = "w\<lparr>active_transaction := Some t, read_buf := Some buf, io_buf_len := buf_len,
              next_state := NETWORK_READ\<rparr>"
  from True assms(1) obtain y1 where
    y1: "DoLoop env OK ?w = Some y1"
    and y: "y = (if snd y1 = ERR_IO_PENDING then (fst y1)\<lparr>has_callback := True\<rparr> else fst y1,
                 snd y1)"
    by (auto simp add: Read_def split: option.splits)
  from assms(2) have "network_read_only ?w" by simp
  from DoLoop_read_only [OF y1 this] show ?thesis unfolding y by simp
qed

lemma ShouldTruncate_snd_read_only [simp]:
  "network_read_only (snd (if c then ShouldTruncate env w else (False, w))) = network_read_only w"
  "events (snd (if c then ShouldTruncate env w else (False, w))) = events w"
  by simp_all

lemma run_call_read_only:
  assumes "run_call c w = Some w'" and "network_read_only w"
  shows "network_read_only w' \<and> body_writes (events w') = body_writes (events w)"
proof (cases c)
  case (CallRead env buf buf_len t)
  with assms(1) obtain y where "Read env buf buf_len t w = Some y" "w' = fst y" by auto
  with Read_read_only [OF _ assms(2)] show ?thesis by blast
next
  case (CallOnIOComplete env r)
  with assms(1) obtain y where "DoLoop env r w = Some y" "w' = fst y"
    by (auto simp add: OnIOComplete_def)
  with DoLoop_read_only [OF _ assms(2)] show ?thesis by blast
next
  case (NetworkDelivers data)
  with assms show ?thesis by auto
next
  case (CallStopCaching keep)
  with assms show ?thesis by (auto simp add: StopCaching_def Let_def)
next
  case (CallAddTransaction t pattern prio info)
  with assms show ?thesis by (auto simp add: AddTransaction_def Let_def)
next
  case (CallSetNetworkTransaction has_checksum)
  with assms show ?thesis by (auto simp add: SetNetworkTransaction_def)
next
  case CallResetNetworkTransaction
  with assms show ?thesis by (auto simp add: ResetNetworkTransaction_def)
next
  case (CallRemoveTransaction env t success)
  with assms show ?thesis
    by (auto simp add: RemoveTransaction_def Let_def split_beta)
next
  case CallCloseConnectionOnDestruction
  with assms show ?thesis by (auto simp add: CloseConnectionOnDestruction_def)
qed

lemma run_calls_read_only:
  "run_calls cs w = Some w' \<Longrightarrow> network_read_only w \<Longrightarrow>
   network_read_only w' \<and> body_writes (events w') = body_writes (events w)"
proof (induction cs arbitrary: w)
  case Nil
  thus ?case by simp
next
  case (Cons c cs)
  from Cons.prems(1) obtain w1 where c: "run_call c w = Some w1" and cs: "run_calls cs w1 = Some w'"
    by (auto split: option.splits)
  from run_call_read_only [OF c Cons.prems(2)]
  have "network_read_only w1" "body_writes (events w1) = body_writes (events w)" by simp_all
  with Cons.IH [OF cs] show ?case by simp
qed

text \<open>
  Claim C7, amended. When the write of \<open>write_len\<close> bytes of response body completes with
  another count, the call returns \<open>write_len\<close>, the number of bytes read from the network
  (and runs the active consumer's callback with it, when that is pending), the session is
  in network-read-only mode and \<open>should_keep_entry\<close> is false. Whatever calls follow,
  the session stays in network-read-only mode and writes no more response body. (The
  response info can still be written, see the counterexample.)
\<close>

theorem cache_write_failure_stops_body_writes:
  assumes "next_state w = CACHE_WRITE_DATA_COMPLETE"
    and "result \<noteq> write_len w"
    and "0 < write_len w"
  shows "\<exists>w'. OnIOComplete env result w = Some (w', write_len w) \<and>
           next_state w' = NONE \<and>
           network_read_only w' \<and>
           \<not> should_keep_entry w' \<and>
           body_writes (events w') = body_writes (events w) \<and>
           (has_callback w \<longrightarrow> (\<exists>es. events w' = es @ [Run_callback (write_len w)])) \<and>
           (\<forall>calls w''. run_calls calls w' = Some w'' \<longrightarrow>
              network_read_only w'' \<and> body_writes (events w'') = body_writes (events w'))"
proof -
  define w1 where "w1 = OnCacheWriteFailure env (w\<lparr>next_state := NONE\<rparr>)"
  have loop: "do_loop env result w = Some (w1, write_len w)"
    unfolding w1_def
    by (subst do_loop.simps)
       (simp add: do_state_def DoCacheWriteDataComplete_def Let_def assms)
  have ns: "next_state w1 = NONE" unfolding w1_def by simp
  have pending: "write_len w \<noteq> ERR_IO_PENDING"
    using assms(3) by (simp add: ERR_IO_PENDING_def)
  have cb: "has_callback w1 = has_callback w" unfolding w1_def by simp
  define w' where
    "w' = (if has_callback w then log_event (Run_callback (write_len w)) else (\<lambda>v. v))
            (case cache_callback w1 of
               None \<Rightarrow> w1\<lparr>has_callback := False, read_buf := None\<rparr>
             | Some c \<Rightarrow>
                 log_event (WritersDoneWritingToEntry (fst c) (fst (snd c)) (snd (snd c)))
                   (w1\<lparr>has_callback := False, read_buf := None, cache_callback := None\<rparr>))"
  have result: "OnIOComplete env result w = Some (w', write_len w)"
    unfolding OnIOComplete_def DoLoop_finished [OF loop ns] w'_def
    by (simp add: pending cb)
  have a: "next_state w' = NONE"
    unfolding w'_def by (simp add: ns split: option.splits)
  have b: "network_read_only w'"
    unfolding w'_def w1_def by (simp split: option.splits)
  have c: "\<not> should_keep_entry w'"
    unfolding w'_def w1_def by (simp split: option.splits)
  have d: "body_writes (events w') = body_writes (events w)"
    unfolding w'_def w1_def by (simp split: option.splits)
  have e: "has_callback w \<longrightarrow> (\<exists>es. events w' = es @ [Run_callback (write_len w)])"
    unfolding w'_def by simp
  have f: "\<forall>calls w''. run_calls calls w' = Some w'' \<longrightarrow>
             network_read_only w'' \<and> body_writes (events w'') = body_writes (events w')"
    using run_calls_read_only [OF _ b] by blast
  from result a b c d e f show ?thesis by blast
qed

lemma OnDataReceived_serves:
  assumes "\<not> active_is_partial w" and "0 \<le> write_len w"
  shows "posted_callbacks (events (OnDataReceived env (write_len w) w)) =
           posted_callbacks (events w) @
           map (\<lambda>e. (fst e, min (waiting_read_buf_len (snd e)) (write_len w),
                       memcpy (waiting_read_buf (snd e))
                         (case read_buf w of None \<Rightarrow> [] | Some src \<Rightarrow> src)
                         (min (waiting_read_buf_len (snd e)) (write_len w))))
             (waiting_for_read w)"
    and "waiting_for_read (OnDataReceived env (write_len w) w) = []"
  using assms
  by (auto simp add: OnDataReceived_def Let_def OnNetworkReadFailure_posted_data
        CompleteWaitingForReadTransactions_def complete_waiting_posted_data
        split: option.splits)

lemma do_loop_mark_complete:
  assumes "waiting_for_read w = []"
    and "next_state w = MARK_SINGLE_KEYED_CACHE_ENTRY_UNUSABLE_COMPLETE"
  shows "\<exists>y. do_loop env rv w = Some y \<and>
           posted_callbacks (events (fst y)) = posted_callbacks (events w) \<and>
           waiting_for_read (fst y) = []"
  by (subst do_loop.simps)
     (simp add: do_state_def DoMarkSingleKeyedCacheEntryUnusableComplete_def Let_def assms
        OnCacheWriteFailure_posted)

lemma do_loop_mark:
  assumes "waiting_for_read w = []"
    and "next_state w = MARK_SINGLE_KEYED_CACHE_ENTRY_UNUSABLE"
  shows "\<exists>y. do_loop env rv w = Some y \<and>
           posted_callbacks (events (fst y)) = posted_callbacks (events w) \<and>
           waiting_for_read (fst y) = []"
proof -
  define w1 where "w1 = fst (DoMarkSingleKeyedCacheEntryUnusable env (w\<lparr>next_state := UNSET\<rparr>))"
  have w1: "waiting_for_read w1 = []"
    "next_state w1 = MARK_SINGLE_KEYED_CACHE_ENTRY_UNUSABLE_COMPLETE"
    "posted_callbacks (events w1) = posted_callbacks (events w)"
    unfolding w1_def by (simp_all add: DoMarkSingleKeyedCacheEntryUnusable_def assms)
  have step: "do_loop env rv w =
                (if info_write_result env \<noteq> ERR_IO_PENDING
                 then do_loop env (info_write_result env) w1
                 else Some (w1, info_write_result env))"
    unfolding w1_def
    by (subst do_loop.simps)
       (simp add: do_state_def DoMarkSingleKeyedCacheEntryUnusable_def assms)
  from do_loop_mark_complete [OF w1(1) w1(2), of env "info_write_result env"] w1(3) w1(1)
  show ?thesis unfolding step by auto
qed

lemma DoLoop_posted:
  assumes "do_loop env rv w = Some (w1, rv1)"
  shows "\<exists>w'. DoLoop env rv w = Some (w', rv1) \<and>
           posted_callbacks (events w') = posted_callbacks (events w1) \<and>
           waiting_for_read w' = waiting_for_read w1"
  using assms by (auto simp add: DoLoop_def Let_def split: option.splits)

lemma DoCacheWriteDataComplete_data:
  assumes "0 \<le> write_len w"
    and "checksum w \<and> write_len w = 0 \<longrightarrow> active_transaction w \<noteq> None"
  shows "\<exists>w2. DoCacheWriteDataComplete env (write_len w) w =
                Some (OnDataReceived env (write_len w) w2, write_len w) \<and>
              (next_state w2 = NONE \<or> next_state w2 = MARK_SINGLE_KEYED_CACHE_ENTRY_UNUSABLE) \<and>
              all_writers w2 = all_writers w \<and>
              active_transaction w2 = active_transaction w \<and>
              waiting_for_read w2 = waiting_for_read w \<and>
              read_buf w2 = read_buf w \<and>
              write_len w2 = write_len w \<and>
              events w2 = events w"
proof (cases "checksum w \<and> write_len w = 0")
  case False
  with assms(1) have "DoCacheWriteDataComplete env (write_len w) w =
          Some (OnDataReceived env (write_len w) (w\<lparr>next_state := NONE\<rparr>), write_len w)"
    by (auto simp add: DoCacheWriteDataComplete_def Let_def)
  thus ?thesis by (intro exI [of _ "w\<lparr>next_state := NONE\<rparr>"]) simp
next
  case True
  with assms(2) have act: "active_transaction w \<noteq> None" by simp
  show ?thesis
  proof (cases "checksum_matches env")
    case True
    with \<open>checksum w \<and> write_len w = 0\<close> act
    have "DoCacheWriteDataComplete env (write_len w) w =
          Some (OnDataReceived env (write_len w) (w\<lparr>next_state := NONE, checksum := False\<rparr>),
                write_len w)"
      by (simp add: DoCacheWriteDataComplete_def Let_def)
    thus ?thesis by (intro exI [of _ "w\<lparr>next_state := NONE, checksum := False\<rparr>"]) simp
  next
    case False
    with \<open>checksum w \<and> write_len w = 0\<close> act
    have "DoCacheWriteDataComplete env (write_len w) w =
          Some (OnDataReceived env (write_len w)
                  (w\<lparr>checksum := False, next_state := MARK_SINGLE_KEYED_CACHE_ENTRY_UNUSABLE\<rparr>),
                write_len w)"
      by (simp add: DoCacheWriteDataComplete_def Let_def)
    thus ?thesis
      by (intro exI [of _ "w\<lparr>checksum := False,
                              next_state := MARK_SINGLE_KEYED_CACHE_ENTRY_UNUSABLE\<rparr>"]) simp
  qed
qed

lemma cycle_completion_serves_queue:
  assumes ns: "next_state w = CACHE_WRITE_DATA_COMPLETE"
    and len: "0 \<le> write_len w"
    and np: "\<not> active_is_partial w"
    and chk: "checksum w \<and> write_len w = 0 \<longrightarrow> active_transaction w \<noteq> None"
  shows "\<exists>w' rv. OnIOComplete env (write_len w) w = Some (w', rv) \<and>
           waiting_for_read w' = [] \<and>
           posted_callbacks (events w') =
             posted_callbacks (events w) @
             map (\<lambda>e. (fst e, min (waiting_read_buf_len (snd e)) (write_len w),
                         memcpy (waiting_read_buf (snd e))
                           (case read_buf w of None \<Rightarrow> [] | Some src \<Rightarrow> src)
                           (min (waiting_read_buf_len (snd e)) (write_len w))))
               (waiting_for_read w)"
proof -
  let ?served = "map (\<lambda>e. (fst e, min (waiting_read_buf_len (snd e)) (write_len w),
                         memcpy (waiting_read_buf (snd e))
                           (case read_buf w of None \<Rightarrow> [] | Some src \<Rightarrow> src)
                           (min (waiting_read_buf_len (snd e)) (write_len w))))
               (waiting_for_read w)"
  let ?u = "w\<lparr>next_state := UNSET\<rparr>"
  have "0 \<le> write_len ?u" "checksum ?u \<and> write_len ?u = 0 \<longrightarrow> active_transaction ?u \<noteq> None"
    using len chk by simp_all
  from DoCacheWriteDataComplete_data [OF this, of env] obtain w2 where
    step: "DoCacheWriteDataComplete env (write_len w) ?u =
             Some (OnDataReceived env (write_len w) w2, write_len w)"
    and s: "next_state w2 = NONE \<or> next_state w2 = MARK_SINGLE_KEYED_CACHE_ENTRY_UNUSABLE"
    and same: "all_writers w2 = all_writers w" "active_transaction w2 = active_transaction w"
      "waiting_for_read w2 = waiting_for_read w" "read_buf w2 = read_buf w"
      "write_len w2 = write_len w" "events w2 = events w"
    by auto
  define s where "s = next_state w2"
  define w3 where "w3 = OnDataReceived env (write_len w) w2"
  have np2: "\<not> active_is_partial w2"
    using np active_is_partial_cong [of w2 w] same by simp
  have len2: "0 \<le> write_len w2" using len same by simp
  from OnDataReceived_serves [OF np2 len2, of env]
  have posted3: "posted_callbacks (events w3) = posted_callbacks (events w) @ ?served"
    and waiting3: "waiting_for_read w3 = []"
    unfolding w3_def same by simp_all
  have ns3: "next_state w3 = s" unfolding w3_def s_def by simp
  have pending: "write_len w \<noteq> ERR_IO_PENDING" using len by (simp add: ERR_IO_PENDING_def)
  have loop: "do_loop env (write_len w) w =
                (if s \<noteq> NONE then do_loop env (write_len w) w3 else Some (w3, write_len w))"
    by (subst do_loop.simps)
       (simp add: do_state_def ns step w3_def [symmetric] ns3 pending)
  have "\<exists>y. do_loop env (write_len w) w = Some y \<and>
          posted_callbacks (events (fst y)) = posted_callbacks (events w) @ ?served \<and>
          waiting_for_read (fst y) = []"
  proof (cases "s = NONE")
    case True
    thus ?thesis unfolding loop using posted3 waiting3 by simp
  next
    case False
    with s ns3 have "next_state w3 = MARK_SINGLE_KEYED_CACHE_ENTRY_UNUSABLE"
      by (simp add: s_def)
    from do_loop_mark [OF waiting3 this, of env "write_len w"] False posted3
    show ?thesis unfolding loop by auto
  qed
  then obtain w4 rv where
    y: "do_loop env (write_len w) w = Some (w4, rv)"
    and posted4: "posted_callbacks (events w4) = posted_callbacks (events w) @ ?served"
    and waiting4: "waiting_for_read w4 = []"
    by auto
  from DoLoop_posted [OF y] posted4 waiting4 show ?thesis
    unfolding OnIOComplete_def by auto
qed

lemma map_insert_new:
  "t \<notin> fst ` set m \<Longrightarrow> (t, v) \<in> set (map_insert t v m)"
  by (simp add: map_insert_def set_insort_key)

text \<open>
  Claim C6, amended. While a cycle is in flight, \<open>Read\<close> answers \<open>ERR_IO_PENDING\<close>, starts
  nothing (the log of events is as it was) and changes the session only by queuing the
  caller's buffer, if the caller is not queued already. When the cycle completes with
  \<open>write_len\<close> bytes, zero or more, and the cache reports that many bytes written (or was
  not written to), with an active transaction that is not a partial one, the queue is
  emptied and every queued consumer gets one posted callback: its result is the smaller of
  the length of its buffer and \<open>write_len\<close>, and its buffer starts with that many bytes
  of the buffer of the cycle.
\<close>

theorem queued_read_served_on_completion:
  "(next_state w \<noteq> NONE \<longrightarrow>
      Read env buf buf_len t w =
        Some (w\<lparr>waiting_for_read :=
                  map_insert t
                    \<lparr> waiting_read_buf = buf, waiting_read_buf_len = buf_len,
                      waiting_write_len = 0 \<rparr>
                    (waiting_for_read w)\<rparr>,
              ERR_IO_PENDING) \<and>
      (t \<notin> fst ` set (waiting_for_read w) \<longrightarrow>
         (t, \<lparr> waiting_read_buf = buf, waiting_read_buf_len = buf_len,
               waiting_write_len = 0 \<rparr>)
           \<in> set (map_insert t
                    \<lparr> waiting_read_buf = buf, waiting_read_buf_len = buf_len,
                      waiting_write_len = 0 \<rparr>
                    (waiting_for_read w)))) \<and>
   (next_state w = CACHE_WRITE_DATA_COMPLETE \<and> 0 \<le> write_len w \<and>
    \<not> active_is_partial w \<and>
    (checksum w \<and> write_len w = 0 \<longrightarrow> active_transaction w \<noteq> None) \<and>
    read_buf w = Some src \<longrightarrow>
      (\<exists>w' rv. OnIOComplete env (write_len w) w = Some (w', rv) \<and>
         waiting_for_read w' = [] \<and>
         posted_callbacks (events w') =
           posted_callbacks (events w) @
           map (\<lambda>e. (fst e, min (waiting_read_buf_len (snd e)) (write_len w),
                       take (nat (min (waiting_read_buf_len (snd e)) (write_len w))) src @
                       drop (nat (min (waiting_read_buf_len (snd e)) (write_len w)))
                         (waiting_read_buf (snd e))))
             (waiting_for_read w)))"
proof (intro conjI impI)
  assume "next_state w \<noteq> NONE"
  thus "Read env buf buf_len t w =
        Some (w\<lparr>waiting_for_read :=
                  map_insert t
                    \<lparr> waiting_read_buf = buf, waiting_read_buf_len = buf_len,
                      waiting_write_len = 0 \<rparr>
                    (waiting_for_read w)\<rparr>,
              ERR_IO_PENDING)"
    by (simp add: Read_def)
next
  assume "t \<notin> fst ` set (waiting_for_read w)"
  thus "(t, \<lparr> waiting_read_buf = buf, waiting_read_buf_len = buf_len,
               waiting_write_len = 0 \<rparr>)
           \<in> set (map_insert t
                    \<lparr> waiting_read_buf = buf, waiting_read_buf_len = buf_len,
                      waiting_write_len = 0 \<rparr>
                    (waiting_for_read w))"
    by (rule map_insert_new)
next
  assume a: "next_state w = CACHE_WRITE_DATA_COMPLETE \<and> 0 \<le> write_len w \<and>
    \<not> active_is_partial w \<and>
    (checksum w \<and> write_len w = 0 \<longrightarrow> active_transaction w \<noteq> None) \<and>
    read_buf w = Some src"
  hence "next_state w = CACHE_WRITE_DATA_COMPLETE" "0 \<le> write_len w"
    "\<not> active_is_partial w"
    "checksum w \<and> write_len w = 0 \<longrightarrow> active_transaction w \<noteq> None"
    by simp_all
  from cycle_completion_serves_queue [OF this, of env] a
  show "\<exists>w' rv. OnIOComplete env (write_len w) w = Some (w', rv) \<and>
         waiting_for_read w' = [] \<and>
         posted_callbacks (events w') =
           posted_callbacks (events w) @
           map (\<lambda>e. (fst e, min (waiting_read_buf_len (snd e)) (write_len w),
                       take (nat (min (waiting_read_buf_len (snd e)) (write_len w))) src @
                       drop (nat (min (waiting_read_buf_len (snd e)) (write_len w)))
                         (waiting_read_buf (snd e))))
             (waiting_for_read w)"
    by (simp add: memcpy_def)
qed

section \<open>Writers: the session of three writers\<close>

lemmas writers_eval =
  OnIOComplete_def DoLoop_def do_loop.simps do_state_def DoNetworkRead_def
  DoNetworkReadComplete_def DoCacheWriteData_def DoCacheWriteDataComplete_def
  DoMarkSingleKeyedCacheEntryUnusable_def DoMarkSingleKeyedCacheEntryUnusableComplete_def
  OnDataReceived_def OnCacheWriteFailure_def OnNetworkReadFailure_def ProcessFailure_def
  RemoveIdleWriters_def CompleteWaitingForReadTransactions_def EraseTransaction_def
  EraseTransaction_it_def UpdatePriority_def ShouldTruncate_def TruncateEntry_def
  SetCacheCallback_def active_is_partial_def log_event_def memcpy_def map_erase_def
  map_insert_def Read_def StopCaching_def shared_session_def session_env_def writer_info_def
  Let_def OK_def ERR_IO_PENDING_def ERR_FAILED_def ERR_CACHE_WRITE_FAILURE_def

text \<open>
  In the session of three writers a network read failing with \<open>-100\<close> posts that error
  to the queued transaction 2, removes the three transactions, and truncates the entry.
\<close>

theorem network_read_error_fails_all_witness:
  "next_state (shared_session NETWORK_READ_COMPLETE) = NETWORK_READ_COMPLETE \<and>
   (- 100 :: int) < 0 \<and>
   (\<exists>w'. OnIOComplete session_env (- 100) (shared_session NETWORK_READ_COMPLETE) =
            Some (w', - 100) \<and>
         next_state w' = NONE \<and>
         all_writers w' = [] \<and> waiting_for_read w' = [] \<and> active_transaction w' = None \<and>
         posted_callbacks (events w') = [(2, - 100, [0, 0, 0, 0])] \<and>
         set (removals (events w')) = {(1, - 100), (2, - 100), (3, - 100)} \<and>
         truncations (events w') = [WriteData_response_info True])"
  using network_read_error_fails_all
    [of "shared_session NETWORK_READ_COMPLETE" "- 100" session_env]
  by (auto simp add: shared_session_def ShouldTruncate_def session_env_def writer_info_def)

text \<open>
  \<open>StopCaching\<close> on the session of three writers, and on a session of one.
\<close>

theorem stop_caching_needs_sole_writer_witness:
  "1 < length (all_writers (shared_session NONE)) \<and>
   StopCaching False (shared_session NONE) = (shared_session NONE, False) \<and>
   length (all_writers ((shared_session NONE)\<lparr>all_writers := [(1, writer_info)]\<rparr>)) = 1 \<and>
   snd (StopCaching False ((shared_session NONE)\<lparr>all_writers := [(1, writer_info)]\<rparr>)) \<and>
   network_read_only
     (fst (StopCaching False ((shared_session NONE)\<lparr>all_writers := [(1, writer_info)]\<rparr>))) \<and>
   \<not> should_keep_entry
     (fst (StopCaching False ((shared_session NONE)\<lparr>all_writers := [(1, writer_info)]\<rparr>))) \<and>
   events (fst (StopCaching False ((shared_session NONE)\<lparr>all_writers := [(1, writer_info)]\<rparr>))) =
     [WritersDoomEntryRestartTransactions]"
  using stop_caching_needs_sole_writer [of "shared_session NONE" False]
    stop_caching_needs_sole_writer
      [of "(shared_session NONE)\<lparr>all_writers := [(1, writer_info)]\<rparr>" False]
  by (simp add: shared_session_def)

text \<open>
  In the session of three writers the cache reports 2 bytes written of the 4 requested.
\<close>

theorem cache_write_failure_stops_body_writes_witness:
  "next_state (shared_session CACHE_WRITE_DATA_COMPLETE) = CACHE_WRITE_DATA_COMPLETE \<and>
   2 \<noteq> write_len (shared_session CACHE_WRITE_DATA_COMPLETE) \<and>
   0 < write_len (shared_session CACHE_WRITE_DATA_COMPLETE) \<and>
   (\<exists>w'. OnIOComplete session_env 2 (shared_session CACHE_WRITE_DATA_COMPLETE) = Some (w', 4) \<and>
         network_read_only w' \<and> \<not> should_keep_entry w' \<and> body_writes (events w') = [] \<and>
         (\<exists>es. events w' = es @ [Run_callback 4]))"
  using cache_write_failure_stops_body_writes
    [of "shared_session CACHE_WRITE_DATA_COMPLETE" 2 session_env]
  by (auto simp add: shared_session_def)

text \<open>
  Claim C7 as it was stated says that no further cache write is attempted. After the failed
  write above, transaction 1 reads again; the network answers with the end of the body and
  the checksum does not match. \<open>DoMarkSingleKeyedCacheEntryUnusable\<close> then writes the
  response info to the entry, in network-read-only mode.
\<close>

theorem cache_write_failure_info_write_counterexample:
  "map_option (\<lambda>w. (network_read_only w, events w))
     (run_calls [CallOnIOComplete session_env 2, CallRead session_env [0, 0, 0, 0] 4 1]
        (shared_session CACHE_WRITE_DATA_COMPLETE)) =
   Some (True,
         [PostTask_callback 2 ERR_CACHE_WRITE_FAILURE [0, 0, 0, 0],
          WriterAboutToBeRemovedFromEntry 2 ERR_CACHE_WRITE_FAILURE,
          WriterAboutToBeRemovedFromEntry 3 ERR_CACHE_WRITE_FAILURE,
          WritersDoomEntryRestartTransactions, Run_callback 4,
          NetworkTransaction_Read 4, WriterAboutToBeRemovedFromEntry 1 0,
          WriteData_response_info False,
          WritersDoneWritingToEntry True False []])"
  by (simp add: writers_eval)

text \<open>
  Claim C6 as it was stated fails when the cache write of the cycle fails: the cycle
  completes with 4 bytes for the active transaction, and the call returns 4, but the
  callback of the queued transaction 2 is posted with \<open>ERR_CACHE_WRITE_FAILURE\<close> and its
  buffer is left as it was.
\<close>

theorem queued_read_served_on_completion_counterexample:
  "map_option (\<lambda>y. (snd y, posted_callbacks (events (fst y))))
     (OnIOComplete session_env 2 (shared_session CACHE_WRITE_DATA_COMPLETE)) =
   Some (4, [(2, ERR_CACHE_WRITE_FAILURE, [0, 0, 0, 0])])"
  by (simp add: writers_eval)

text \<open>
  Transaction 3 reads into a buffer of two bytes while the cycle is in flight, and is
  queued behind transaction 2; when the cycle completes with 4 bytes and the cache has
  written them, transaction 2 gets the four bytes and transaction 3 the first two.
\<close>

theorem queued_read_served_on_completion_witness:
  "next_state (shared_session CACHE_WRITE_DATA_COMPLETE) \<noteq> NONE \<and>
   3 \<notin> fst ` set (waiting_for_read (shared_session CACHE_WRITE_DATA_COMPLETE)) \<and>
   Read session_env [0, 0] 2 3 (shared_session CACHE_WRITE_DATA_COMPLETE) =
     Some ((shared_session CACHE_WRITE_DATA_COMPLETE)
             \<lparr>waiting_for_read :=
                [(2, \<lparr> waiting_read_buf = [0, 0, 0, 0], waiting_read_buf_len = 4,
                        waiting_write_len = 0 \<rparr>),
                 (3, \<lparr> waiting_read_buf = [0, 0], waiting_read_buf_len = 2,
                        waiting_write_len = 0 \<rparr>)]\<rparr>,
           ERR_IO_PENDING) \<and>
   \<not> active_is_partial (shared_session CACHE_WRITE_DATA_COMPLETE) \<and>
   read_buf (shared_session CACHE_WRITE_DATA_COMPLETE) = Some [10, 20, 30, 40] \<and>
   (\<exists>w' rv.
      OnIOComplete session_env 4
        ((shared_session CACHE_WRITE_DATA_COMPLETE)
           \<lparr>waiting_for_read :=
              [(2, \<lparr> waiting_read_buf = [0, 0, 0, 0], waiting_read_buf_len = 4,
                      waiting_write_len = 0 \<rparr>),
               (3, \<lparr> waiting_read_buf = [0, 0], waiting_read_buf_len = 2,
                      waiting_write_len = 0 \<rparr>)]\<rparr>) = Some (w', rv) \<and>
      waiting_for_read w' = [] \<and>
      posted_callbacks (events w') = [(2, 4, [10, 20, 30, 40]), (3, 2, [10, 20])])"
  using queued_read_served_on_completion
      [where w = "shared_session CACHE_WRITE_DATA_COMPLETE" and env = session_env
         and buf = "[0, 0]" and buf_len = 2 and t = 3 and src = "[10, 20, 30, 40]"]
    queued_read_served_on_completion
      [where w = "(shared_session CACHE_WRITE_DATA_COMPLETE)
           \<lparr>waiting_for_read :=
              [(2, \<lparr> waiting_read_buf = [0, 0, 0, 0], waiting_read_buf_len = 4,
                      waiting_write_len = 0 \<rparr>),
               (3, \<lparr> waiting_read_buf = [0, 0], waiting_read_buf_len = 2,
                      waiting_write_len = 0 \<rparr>)]\<rparr>"
         and env = session_env and buf = "[0, 0]" and buf_len = 2 and t = 3
         and src = "[10, 20, 30, 40]"]
  by (simp add: shared_session_def map_insert_def active_is_partial_def writer_info_def)

end
